theory Spec2Isabelle
  imports Main "HOL-Library.Word" "HOL-Library.Sublist" "HOL-Library.AList"
begin

section \<open>Python strings and bytes\<close>

text \<open>
  Domains, patterns and file lines are Python \<open>str\<close> values; they are modelled as
  \<open>string\<close> (lists of 8-bit characters), which is exact for ASCII host names.
  Socket payloads are Python \<open>bytes\<close>, modelled as lists of 8-bit words.
\<close>

type_synonym byte = "8 word"
type_synonym bytes = "byte list"

definition lower_char :: "char \<Rightarrow> char" where
  \<comment> \<open>the ASCII letters \<open>A\<close> to \<open>Z\<close> go to \<open>a\<close> to \<open>z\<close>\<close>
  "lower_char c =
     (case map_of (zip ''ABCDEFGHIJKLMNOPQRSTUVWXYZ'' ''abcdefghijklmnopqrstuvwxyz'') c of
        None \<Rightarrow> c
      | Some l \<Rightarrow> l)"

definition str_lower :: "string \<Rightarrow> string" where
  \<comment> \<open>\<open>s.lower()\<close>\<close>
  "str_lower s = map lower_char s"

definition startswith :: "'a list \<Rightarrow> 'a list \<Rightarrow> bool" where
  \<comment> \<open>\<open>s.startswith(p)\<close>\<close>
  "startswith s p = prefix p s"

definition endswith :: "'a list \<Rightarrow> 'a list \<Rightarrow> bool" where
  \<comment> \<open>\<open>s.endswith(p)\<close>\<close>
  "endswith s p = suffix p s"

definition py_slice :: "'a list \<Rightarrow> nat \<Rightarrow> nat \<Rightarrow> 'a list" where
  \<comment> \<open>\<open>xs[a:b]\<close> for non-negative bounds; Python clamps both to the length.\<close>
  "py_slice xs a b = take (b - a) (drop a xs)"

fun str_remove :: "string \<Rightarrow> string \<Rightarrow> string" where
  \<comment> \<open>\<open>s.replace(old, "")\<close>: every non-overlapping occurrence, left to right.\<close>
  "str_remove old [] = []"
| "str_remove old (c # cs) =
     (if old \<noteq> [] \<and> prefix old (c # cs) then str_remove old (drop (length old) (c # cs))
      else c # str_remove old cs)"

fun split :: "char \<Rightarrow> string \<Rightarrow> string list" where
  \<comment> \<open>\<open>s.split(sep)\<close> for a one-character separator; the result is never empty.\<close>
  "split sep [] = [[]]"
| "split sep (c # cs) =
     (if c = sep then [] # split sep cs
      else (case split sep cs of p # ps \<Rightarrow> (c # p) # ps | [] \<Rightarrow> [[c]]))"

fun join :: "string \<Rightarrow> string list \<Rightarrow> string" where
  \<comment> \<open>\<open>sep.join(parts)\<close>\<close>
  "join sep [] = []"
| "join sep [p] = p"
| "join sep (p # q # ps) = p @ sep @ join sep (q # ps)"

definition is_space :: "char \<Rightarrow> bool" where
  \<comment> \<open>the ASCII characters \<open>str.strip()\<close> removes\<close>
  "is_space c = (let n = (of_char c :: nat) in (9 \<le> n \<and> n \<le> 13) \<or> (28 \<le> n \<and> n \<le> 32))"

definition strip :: "string \<Rightarrow> string" where
  \<comment> \<open>\<open>s.strip()\<close>\<close>
  "strip s = rev (dropWhile is_space (rev (dropWhile is_space s)))"

section \<open>rules.py: the rule engine\<close>

text \<open>
  A rule is a dictionary loaded from JSON; \<open>rule.get(k, default)\<close> is a lookup with a
  default. The values read by the engine are strings.
\<close>

type_synonym rule = "string \<rightharpoonup> string"

definition dict_get :: "('k \<rightharpoonup> 'v) \<Rightarrow> 'k \<Rightarrow> 'v \<Rightarrow> 'v" where
  "dict_get d k dflt = (case d k of None \<Rightarrow> dflt | Some v \<Rightarrow> v)"

definition rule_match :: "string \<Rightarrow> string \<Rightarrow> bool" where
  \<comment> \<open>\<open>RuleEngine._match(pattern, domain)\<close>\<close>
  "rule_match pattern domain =
     (if pattern = [] then False
      else if startswith pattern ''*.'' then endswith domain (drop 1 pattern)
      else domain = pattern \<or> endswith domain (''.'' @ pattern))"

fun decide_loop :: "rule list \<Rightarrow> string \<Rightarrow> bool option \<times> string option" where
  \<comment> \<open>the \<open>for rule in self.rules\<close> loop of \<open>decide\<close>, \<open>d\<close> already lowercased\<close>
  "decide_loop [] d = (None, None)"
| "decide_loop (rule # rules) d =
     (let pattern = str_lower (dict_get rule ''pattern'' '''') in
      if \<not> rule_match pattern d then decide_loop rules d
      else
        let action = str_lower (dict_get rule ''action'' ''auto'');
            method = (case rule ''fragment_method'' of
                        None \<Rightarrow> None
                      | Some m \<Rightarrow> if m = [] then None else Some (str_lower m))
        in if action = ''bypass'' then (Some False, method)
           else if action = ''force'' then (Some True, method)
           else (None, method))"

definition decide :: "rule list \<Rightarrow> string \<Rightarrow> bool option \<times> string option" where
  \<comment> \<open>\<open>RuleEngine.decide(domain)\<close>\<close>
  "decide rules domain = decide_loop rules (str_lower domain)"

definition spec_match :: "string \<Rightarrow> string \<Rightarrow> bool" where
  \<comment> \<open>The matching condition in the words of the specification (section 4.3), for
      comparison with \<open>rule_match\<close>.\<close>
  "spec_match pattern domain =
     (pattern = domain
      \<or> (startswith pattern ''*.'' \<and> endswith domain (drop 1 pattern))
      \<or> endswith domain (''.'' @ pattern))"


section \<open>Errors\<close>

text \<open>The exceptions the modelled code can raise, as values.\<close>

datatype error =
    FileNotFoundError
  | OverflowError
  | StopIteration
  | OSError
  | TimeoutError
  | ConnectionResetError

section \<open>blacklist.py: the file-backed blacklist\<close>

record FileBlacklistManager =
  domain_matching :: string  \<comment> \<open>\<open>self.config.domain_matching\<close>\<close>
  blocked :: "string list"
  blocked_set :: "string set"

definition load_line :: "FileBlacklistManager \<Rightarrow> string \<Rightarrow> FileBlacklistManager" where
  \<comment> \<open>the body of the \<open>for line in f\<close> loop of \<open>load_blacklist\<close>\<close>
  "load_line self line =
     (let s = strip line in
      if length s < 2 \<or> hd s = CHR ''#'' then self
      else
        let d = str_remove ''www.'' (str_lower s)
        in self\<lparr>blocked := blocked self @ [d], blocked_set := insert d (blocked_set self)\<rparr>)"

definition load_blacklist ::
  "FileBlacklistManager \<Rightarrow> string list option \<Rightarrow> error + FileBlacklistManager" where
  \<comment> \<open>\<open>load_blacklist\<close>; the file is given by its lines, \<open>None\<close> when it does not exist\<close>
  "load_blacklist self file =
     (case file of
        None \<Rightarrow> Inl FileNotFoundError
      | Some lines \<Rightarrow> Inr (foldl load_line self lines))"

definition FileBlacklistManager_init ::
  "string \<Rightarrow> string list option \<Rightarrow> error + FileBlacklistManager" where
  \<comment> \<open>\<open>FileBlacklistManager.__init__\<close>\<close>
  "FileBlacklistManager_init matching file =
     load_blacklist \<lparr>domain_matching = matching, blocked = [], blocked_set = {}\<rparr> file"

fun suffix_loop :: "string set \<Rightarrow> string list \<Rightarrow> nat list \<Rightarrow> bool" where
  \<comment> \<open>\<open>for i in range(1, len(parts))\<close>, over the list of indices\<close>
  "suffix_loop S parts [] = False"
| "suffix_loop S parts (i # is) =
     (if join ''.'' (drop i parts) \<in> S then True else suffix_loop S parts is)"

definition is_blocked :: "FileBlacklistManager \<Rightarrow> string \<Rightarrow> bool" where
  \<comment> \<open>\<open>FileBlacklistManager.is_blocked(domain)\<close>\<close>
  "is_blocked self domain =
     (let d = str_remove ''www.'' domain in
      if domain_matching self = ''loose'' \<and> (\<exists>bd \<in> blocked_set self. sublist bd d) then True
      else if d \<in> blocked_set self then True
      else
        let parts = split (CHR ''.'') d
        in suffix_loop (blocked_set self) parts [1..<length parts])"

definition strip_www_prefix :: "string \<Rightarrow> string" where
  \<comment> \<open>Normalisation in the words of the specification (section 4.2): lowercased, with
      the \<open>www.\<close> prefix stripped; for comparison with the code's \<open>replace\<close>.\<close>
  "strip_www_prefix domain =
     (let d = str_lower domain in if prefix ''www.'' d then drop 4 d else d)"

definition strict_lookup :: "string set \<Rightarrow> string \<Rightarrow> bool" where
  \<comment> \<open>Strict matching in the words of the specification, for a normalised domain: it is
      in the set, or one of its strict parent domains is.\<close>
  "strict_lookup S d =
     (d \<in> S
      \<or> (\<exists>i \<in> {1..<length (split (CHR ''.'') d)}. join ''.'' (drop i (split (CHR ''.'') d)) \<in> S))"

section \<open>blacklist.py: the adaptive blacklist\<close>

text \<open>
  The record holds the two in-memory sets and the contents of the file named by
  \<open>self.blacklist_file\<close>. The outcome of the HTTPS probe is an input: it succeeds, raises
  \<open>URLError\<close> (with \<open>str(e.reason)\<close>, or \<open>None\<close> when taking it raises), or raises
  another exception.
\<close>

record AutoBlacklistManager =
  auto_blocked_set :: "string set"
  auto_whitelist_set :: "string set"
  backing_file :: string

datatype probe_result = ProbeSuccess | ProbeURLError "string option" | ProbeException

definition AutoBlacklistManager_init :: "string \<Rightarrow> AutoBlacklistManager" where
  "AutoBlacklistManager_init file =
     \<lparr>auto_blocked_set = {}, auto_whitelist_set = {}, backing_file = file\<rparr>"

definition auto_is_blocked :: "AutoBlacklistManager \<Rightarrow> string \<Rightarrow> bool" where
  \<comment> \<open>\<open>AutoBlacklistManager.is_blocked(domain)\<close>\<close>
  "auto_is_blocked self domain = (domain \<in> auto_blocked_set self)"

definition check_domain_guard :: "AutoBlacklistManager \<Rightarrow> string \<Rightarrow> bool" where
  \<comment> \<open>the early \<open>return\<close> of \<open>check_domain\<close>: the domain is already classified\<close>
  "check_domain_guard self dec = (dec \<in> auto_blocked_set self \<or> dec \<in> auto_whitelist_set self)"

definition check_domain_resume ::
  "AutoBlacklistManager \<Rightarrow> string \<Rightarrow> probe_result \<Rightarrow> bool \<Rightarrow> AutoBlacklistManager" where
  \<comment> \<open>\<open>check_domain\<close> from the point where \<open>await loop.run_in_executor(None, probe)\<close>
      returns or raises; \<open>can_append\<close> tells whether opening and writing the file succeeds\<close>
  "check_domain_resume self dec outcome can_append =
     (case outcome of
        ProbeSuccess \<Rightarrow> self\<lparr>auto_whitelist_set := insert dec (auto_whitelist_set self)\<rparr>
      | ProbeURLError e \<Rightarrow>
          (let reason = (case e of None \<Rightarrow> [] | Some r \<Rightarrow> r) in
           if sublist ''handshake operation timed out'' reason then
             (let self' = self\<lparr>auto_blocked_set := insert dec (auto_blocked_set self)\<rparr> in
              if can_append
              then self'\<lparr>backing_file := backing_file self' @ dec @ [CHR 0x0A]\<rparr>
              else self')
           else self)
      | ProbeException \<Rightarrow> self\<lparr>auto_whitelist_set := insert dec (auto_whitelist_set self)\<rparr>)"

definition check_domain ::
  "AutoBlacklistManager \<Rightarrow> string \<Rightarrow> probe_result \<Rightarrow> bool \<Rightarrow> AutoBlacklistManager" where
  \<comment> \<open>one call of \<open>check_domain\<close> run to completion with no other task in between\<close>
  "check_domain self dec outcome can_append =
     (if check_domain_guard self dec then self
      else check_domain_resume self dec outcome can_append)"

fun check_all ::
  "AutoBlacklistManager \<Rightarrow> (string \<times> probe_result \<times> bool) list \<Rightarrow> AutoBlacklistManager" where
  \<comment> \<open>a sequence of calls, each completed before the next starts\<close>
  "check_all self [] = self"
| "check_all self ((dec, outcome, can_append) # calls) =
     check_all (check_domain self dec outcome can_append) calls"

text \<open>
  \<open>check_domain\<close> suspends at its \<open>await\<close>, between the guard and the update of the sets,
  and every connection task calls it. The interleaving of several calls on one event
  loop is a sequence of events: a call runs up to its \<open>await\<close> (\<open>Call\<close>), and later its
  probe completes and it runs to its end (\<open>Resume\<close>). \<open>pending\<close> lists the domains of
  the calls that are suspended.
\<close>

datatype event = Call string | Resume string probe_result bool

fun step :: "AutoBlacklistManager \<times> string list \<Rightarrow> event \<Rightarrow> AutoBlacklistManager \<times> string list" where
  "step (self, pending) (Call dec) =
     (if check_domain_guard self dec then (self, pending) else (self, dec # pending))"
| "step (self, pending) (Resume dec outcome can_append) =
     (if dec \<in> set pending
      then (check_domain_resume self dec outcome can_append, remove1 dec pending)
      else (self, pending))"

definition run_events ::
  "AutoBlacklistManager \<Rightarrow> event list \<Rightarrow> AutoBlacklistManager \<times> string list" where
  "run_events self events = foldl step (self, []) events"

section \<open>dns_cache.py: the DNS cache\<close>

text \<open>
  \<open>self._cache\<close> is a Python dictionary, which keeps its keys in insertion order:
  it is an association list, oldest key first. Assigning to a key that is present
  keeps its position, assigning to a new key appends it (\<open>AList.update\<close>).
  The clock is any linearly ordered type with addition; an address record is any type.
\<close>

fun digits :: "nat \<Rightarrow> string" where
  "digits n =
     (if n < 10 then [''0123456789'' ! n]
      else digits (n div 10) @ [''0123456789'' ! (n mod 10)])"

declare digits.simps [simp del]

definition str_int :: "int \<Rightarrow> string" where
  \<comment> \<open>\<open>str(i)\<close> for a Python integer\<close>
  "str_int i = (if i < 0 then ''-'' @ digits (nat (- i)) else digits (nat i))"

record ('t, 'a) DNSCache =
  ttl :: 't
  max_entries :: int
  cache :: "(string \<times> 't \<times> 'a list) list"

definition cache_key :: "string \<Rightarrow> int \<Rightarrow> string" where
  \<comment> \<open>\<open>f"{host}:{port}"\<close>\<close>
  "cache_key host port = host @ '':'' @ str_int port"

definition cache_store ::
  "('t::{plus,linorder}, 'a) DNSCache \<Rightarrow> 't \<Rightarrow> string \<Rightarrow> 'a list
     \<Rightarrow> error + ('t, 'a) DNSCache" where
  \<comment> \<open>\<open>resolve\<close> after \<open>getaddrinfo\<close> has returned: evict if full, then insert.
      \<open>next(iter(self._cache))\<close> raises \<open>StopIteration\<close> on an empty dictionary.\<close>
  "cache_store self now key addrs =
     (if int (length (cache self)) \<ge> max_entries self then
        (case cache self of
           [] \<Rightarrow> Inl StopIteration
         | oldest # rest \<Rightarrow> Inr (self\<lparr>cache := AList.update key (now + ttl self, addrs) rest\<rparr>))
      else Inr (self\<lparr>cache := AList.update key (now + ttl self, addrs) (cache self)\<rparr>))"

definition resolve_miss ::
  "('t::{plus,linorder}, 'a) DNSCache \<Rightarrow> 't \<Rightarrow> string \<Rightarrow> error + 'a list
     \<Rightarrow> (error + 'a list) \<times> ('t, 'a) DNSCache" where
  \<comment> \<open>\<open>resolve\<close> past the cache test: the resolution, whose errors propagate, and the
      insertion\<close>
  "resolve_miss self now key getaddrinfo =
     (case getaddrinfo of
        Inl exn \<Rightarrow> (Inl exn, self)
      | Inr addrs \<Rightarrow>
          (case cache_store self now key addrs of
             Inl exn \<Rightarrow> (Inl exn, self)
           | Inr self' \<Rightarrow> (Inr addrs, self')))"

definition resolve ::
  "('t::{plus,linorder}, 'a) DNSCache \<Rightarrow> 't \<Rightarrow> string \<Rightarrow> int \<Rightarrow> error + 'a list
     \<Rightarrow> (error + 'a list) \<times> ('t, 'a) DNSCache" where
  \<comment> \<open>\<open>DNSCache.resolve(host, port)\<close>: \<open>now\<close> is the value of \<open>time.monotonic()\<close>,
      \<open>getaddrinfo\<close> the outcome of the resolution, which is used only on a miss.
      The result is the returned list or the raised exception, and the cache afterwards.\<close>
  "resolve self now host port getaddrinfo =
     (let key = cache_key host port in
      case map_of (cache self) key of
        None \<Rightarrow> resolve_miss self now key getaddrinfo
      | Some entry \<Rightarrow>
          if fst entry > now then (Inr (snd entry), self)
          else resolve_miss self now key getaddrinfo)"

section \<open>connection.py: fragmentation of the first TLS payload\<close>

definition to_bytes2 :: "nat \<Rightarrow> error + bytes" where
  \<comment> \<open>\<open>n.to_bytes(2, "big")\<close>, which raises \<open>OverflowError\<close> from 65536 on\<close>
  "to_bytes2 n =
     (if n < 65536 then Inr [of_nat (n div 256), of_nat (n mod 256)] else Inl OverflowError)"

definition from_bytes :: "bytes \<Rightarrow> nat" where
  \<comment> \<open>\<open>int.from_bytes(bs, "big")\<close>\<close>
  "from_bytes bs = foldl (\<lambda>acc b. acc * 256 + unat b) 0 bs"

fun find_at :: "'a list \<Rightarrow> 'a list \<Rightarrow> nat \<Rightarrow> nat option" where
  \<comment> \<open>the lowest index at which \<open>sub\<close> occurs, the list starting at index \<open>i\<close>\<close>
  "find_at sub [] i = (if sub = [] then Some i else None)"
| "find_at sub (x # xs) i = (if prefix sub (x # xs) then Some i else find_at sub xs (Suc i))"

definition bytes_find :: "'a list \<Rightarrow> 'a list \<Rightarrow> nat \<Rightarrow> nat option" where
  \<comment> \<open>\<open>data.find(sub, start)\<close>; \<open>None\<close> stands for \<open>-1\<close>\<close>
  "bytes_find data sub start =
     (if start \<le> length data then find_at sub (drop start data) start else None)"

function sni_scan :: "bytes \<Rightarrow> nat option \<Rightarrow> (nat \<times> nat) option" where
  \<comment> \<open>the \<open>while pos != -1 and pos + 9 <= len(data)\<close> loop of \<open>_extract_sni_position\<close>\<close>
  "sni_scan data None = None"
| "sni_scan data (Some pos) =
     (if pos + 9 \<le> length data then
        (let ext_len = int (from_bytes (py_slice data (pos + 2) (pos + 4)));
             list_len = int (from_bytes (py_slice data (pos + 4) (pos + 6)));
             name_len = int (from_bytes (py_slice data (pos + 7) (pos + 9)))
         in if ext_len - list_len = 2 \<and> list_len - name_len = 3
            then (let sni_start = pos + 9 in Some (sni_start, sni_start + nat name_len))
            else sni_scan data (bytes_find data [0, 0] (pos + 1)))
      else None)"
  by pat_completeness auto
termination
proof (relation "measure (\<lambda>(data, p). case p of None \<Rightarrow> 0 | Some pos \<Rightarrow> Suc (length data - pos))")
  show "wf (measure (\<lambda>(data, p). case p of None \<Rightarrow> 0 | Some pos \<Rightarrow> Suc (length data - pos)))"
    by simp
next
  fix data :: bytes and pos :: nat and x xa xb
  assume fits: "pos + 9 \<le> length data"
  have later: "i \<le> p" if "find_at [0, 0 :: byte] xs i = Some p" for xs i p
    using that by (induction xs arbitrary: i) (fastforce split: if_splits)+
  show "((data, bytes_find data [0, 0] (pos + 1)), (data, Some pos))
      \<in> measure (\<lambda>(data, p). case p of None \<Rightarrow> 0 | Some pos \<Rightarrow> Suc (length data - pos))"
    using fits later [of "drop (pos + 1) data" "pos + 1"]
    by (auto simp: bytes_find_def split: option.splits)
qed

declare sni_scan.simps [simp del]

definition extract_sni_position :: "bytes \<Rightarrow> (nat \<times> nat) option" where
  \<comment> \<open>\<open>_extract_sni_position(data)\<close>\<close>
  "extract_sni_position data = sni_scan data (bytes_find data [0, 0] 0)"

definition sni_candidate :: "bytes \<Rightarrow> nat \<Rightarrow> bool" where
  \<comment> \<open>An accepted candidate in the words of the specification (section 4.4): the byte
      pair \<open>00 00\<close> at \<open>pos\<close>, the nine bytes of the fields within \<open>data\<close>, and the two
      length equations.\<close>
  "sni_candidate data pos =
     (pos + 9 \<le> length data \<and> data ! pos = 0 \<and> data ! (pos + 1) = 0
      \<and> int (from_bytes (py_slice data (pos + 2) (pos + 4)))
          - int (from_bytes (py_slice data (pos + 4) (pos + 6))) = 2
      \<and> int (from_bytes (py_slice data (pos + 4) (pos + 6)))
          - int (from_bytes (py_slice data (pos + 7) (pos + 9))) = 3)"

definition hdr :: bytes where
  \<comment> \<open>\<open>bytes.fromhex("160304")\<close>\<close>
  "hdr = [0x16, 0x03, 0x04]"

definition mk_record :: "nat \<Rightarrow> bytes \<Rightarrow> error + bytes" where
  \<comment> \<open>\<open>hdr + n.to_bytes(2, "big") + payload\<close>\<close>
  "mk_record n payload =
     (case to_bytes2 n of Inl exn \<Rightarrow> Inl exn | Inr len \<Rightarrow> Inr (hdr @ len @ payload))"

fun mk_records :: "bytes list \<Rightarrow> error + bytes list" where
  \<comment> \<open>a list display of records, each with the length of its own payload, built left
      to right\<close>
  "mk_records [] = Inr []"
| "mk_records (p # ps) =
     (case mk_record (length p) p of
        Inl exn \<Rightarrow> Inl exn
      | Inr r \<Rightarrow> (case mk_records ps of Inl exn \<Rightarrow> Inl exn | Inr rs \<Rightarrow> Inr (r # rs)))"

definition sni_parts :: "bytes \<Rightarrow> nat \<times> nat \<Rightarrow> error + bytes list" where
  \<comment> \<open>the four records built when \<open>sni_pos\<close> is found\<close>
  "sni_parts data sni_pos =
     (let pre = take (fst sni_pos) data;
          sni = py_slice data (fst sni_pos) (snd sni_pos);
          post = drop (snd sni_pos) data;
          mid = (length sni + 1) div 2
      in mk_records [pre, take mid sni, drop mid sni, post])"

function split_loop :: "bytes \<Rightarrow> nat \<Rightarrow> bytes list \<Rightarrow> error + bytes list" where
  \<comment> \<open>the \<open>while idx < len(data)\<close> loop, with \<open>chunk_size = 32\<close>\<close>
  "split_loop data idx parts =
     (if idx < length data then
        (let n = min 32 (length data - idx) in
         case mk_record n (py_slice data idx (idx + n)) of
           Inl exn \<Rightarrow> Inl exn
         | Inr r \<Rightarrow> split_loop data (idx + n) (parts @ [r]))
      else Inr parts)"
  by pat_completeness auto
termination
  by (relation "measure (\<lambda>(data, idx, parts). length data - idx)") auto

declare split_loop.simps [simp del]

definition randrange :: "nat \<Rightarrow> nat \<Rightarrow> nat \<Rightarrow> nat" where
  \<comment> \<open>\<open>random.randrange(a, b)\<close> for \<open>a < b\<close>, as a function of the generator's raw draw:
      every value of \<open>[a, b)\<close> is the image of some draw, and no other value is\<close>
  "randrange raw a b = a + raw mod (b - a)"

function random_loop ::
  "(nat \<Rightarrow> nat) \<Rightarrow> nat \<Rightarrow> bytes \<Rightarrow> bytes list \<Rightarrow> error + (bytes list \<times> bytes)" where
  \<comment> \<open>the \<open>while data\<close> loop; \<open>rng k\<close> is the generator's \<open>k\<close>-th raw draw. The result
      is \<open>parts\<close> and the remaining \<open>data\<close>.\<close>
  "random_loop rng k data parts =
     (if data \<noteq> [] then
        (let n = randrange (rng k) 1 (length data + 1) in
         case mk_record n (take n data) of
           Inl exn \<Rightarrow> Inl exn
         | Inr r \<Rightarrow> random_loop rng (Suc k) (drop n data) (parts @ [r]))
      else Inr (parts, data))"
  by pat_completeness auto
termination
  by (relation "measure (\<lambda>(rng, k, data, parts). length data)") (auto simp: randrange_def)

declare random_loop.simps [simp del]

definition choose_method :: "string option \<Rightarrow> string \<Rightarrow> int \<Rightarrow> string" where
  \<comment> \<open>\<open>method = rule_method or self.config.fragment_method\<close>, then the upgrade of
      \<open>random\<close> to \<open>sni\<close> after two failures\<close>
  "choose_method rule_method fragment_method failures =
     (let method = (case rule_method of
                      None \<Rightarrow> fragment_method
                    | Some m \<Rightarrow> if m = [] then fragment_method else m)
      in if failures \<ge> 2 \<and> method = ''random'' then ''sni'' else method)"

definition sni_stage :: "string \<Rightarrow> bytes \<Rightarrow> error + (string \<times> bytes list)" where
  \<comment> \<open>\<open>if method == "sni": ...\<close>; the result is \<open>method\<close> and \<open>parts\<close>\<close>
  "sni_stage method data =
     (if method = ''sni'' then
        (case extract_sni_position data of
           Some sni_pos \<Rightarrow>
             (case sni_parts data sni_pos of
                Inl exn \<Rightarrow> Inl exn
              | Inr parts \<Rightarrow> Inr (method, parts))
         | None \<Rightarrow> Inr (''split'', []))
      else Inr (method, []))"

definition split_stage :: "string \<Rightarrow> bytes \<Rightarrow> bytes list \<Rightarrow> error + bytes list" where
  \<comment> \<open>\<open>if method == "split" or method == "split-jitter": ...\<close>\<close>
  "split_stage method data parts =
     (if method = ''split'' \<or> method = ''split-jitter'' then split_loop data 0 parts
      else Inr parts)"

definition random_stage ::
  "string \<Rightarrow> (nat \<Rightarrow> nat) \<Rightarrow> bytes \<Rightarrow> bytes list \<Rightarrow> error + (bytes list \<times> bytes)" where
  \<comment> \<open>\<open>if method not in {"sni", "split", "split-jitter"}: ...\<close>; the result is \<open>parts\<close>
      and the variable \<open>data\<close>, which this branch consumes\<close>
  "random_stage method rng data parts =
     (if method \<noteq> ''sni'' \<and> method \<noteq> ''split'' \<and> method \<noteq> ''split-jitter'' then
        (case bytes_find data [0] 0 of
           Some host_end \<Rightarrow>
             (case mk_record (host_end + 1) (take (host_end + 1) data) of
                Inl exn \<Rightarrow> Inl exn
              | Inr r \<Rightarrow> random_loop rng 0 (drop (host_end + 1) data) (parts @ [r]))
         | None \<Rightarrow> random_loop rng 0 data parts)
      else Inr (parts, data))"

definition build_parts ::
  "string \<Rightarrow> (nat \<Rightarrow> nat) \<Rightarrow> bytes \<Rightarrow> error + (string \<times> bytes list \<times> bytes)" where
  \<comment> \<open>lines 236 to 276 of \<open>_handle_initial_tls_data\<close>: from the chosen method and the
      payload to the final \<open>method\<close>, \<open>parts\<close> and \<open>data\<close>\<close>
  "build_parts method rng data =
     (case sni_stage method data of
        Inl exn \<Rightarrow> Inl exn
      | Inr (method1, parts1) \<Rightarrow>
          (case split_stage method1 data parts1 of
             Inl exn \<Rightarrow> Inl exn
           | Inr parts2 \<Rightarrow>
               (case random_stage method1 rng data parts2 of
                  Inl exn \<Rightarrow> Inl exn
                | Inr (parts3, data3) \<Rightarrow> Inr (method1, parts3, data3))))"

definition tls_record :: "bytes \<Rightarrow> bytes" where
  \<comment> \<open>The forged record in the words of the specification (section 6): \<open>16 03 04\<close>, the
      payload length as 16 bits big-endian, the payload.\<close>
  "tls_record payload =
     [0x16, 0x03, 0x04, of_nat (length payload div 256), of_nat (length payload mod 256)]
     @ payload"

definition initial_writes :: "bytes \<Rightarrow> string \<times> bytes list \<times> bytes \<Rightarrow> bytes list" where
  \<comment> \<open>lines 278 to 297: the payloads of the successive \<open>writer.write\<close> calls\<close>
  "initial_writes head r =
     (case r of (method, parts, data) \<Rightarrow>
        if parts = [] then [head @ data]
        else if method = ''split-jitter'' then parts
        else [concat parts])"

fun chunks :: "nat \<Rightarrow> 'a list \<Rightarrow> 'a list list" where
  \<comment> \<open>The split method in the words of the specification: payloads of a fixed size,
      the last one possibly shorter.\<close>
  "chunks n [] = []"
| "chunks n (x # xs) =
     (if n = 0 then [] else take n (x # xs) # chunks n (drop n (x # xs)))"

section \<open>stats.py: the counters\<close>

record Statistics =
  total_connections :: int
  allowed_connections :: int
  blocked_connections :: int
  errors_connections :: int
  traffic_in :: int
  traffic_out :: int

definition Statistics_init :: Statistics where
  "Statistics_init =
     \<lparr>total_connections = 0, allowed_connections = 0, blocked_connections = 0,
      errors_connections = 0, traffic_in = 0, traffic_out = 0\<rparr>"

definition increment_total_connections :: "Statistics \<Rightarrow> Statistics" where
  "increment_total_connections st = st\<lparr>total_connections := total_connections st + 1\<rparr>"

definition increment_allowed_connections :: "Statistics \<Rightarrow> Statistics" where
  "increment_allowed_connections st = st\<lparr>allowed_connections := allowed_connections st + 1\<rparr>"

definition increment_blocked_connections :: "Statistics \<Rightarrow> Statistics" where
  "increment_blocked_connections st = st\<lparr>blocked_connections := blocked_connections st + 1\<rparr>"

definition increment_error_connections :: "Statistics \<Rightarrow> Statistics" where
  "increment_error_connections st = st\<lparr>errors_connections := errors_connections st + 1\<rparr>"

definition update_traffic :: "Statistics \<Rightarrow> int \<Rightarrow> int \<Rightarrow> Statistics" where
  "update_traffic st incoming outgoing =
     st\<lparr>traffic_in := traffic_in st + incoming, traffic_out := traffic_out st + outgoing\<rparr>"

section \<open>connection.py: the connection handler\<close>

text \<open>
  A \<open>ConnectionInfo\<close> is a mutable object shared between the local variable of the
  task and the \<open>active_connections\<close> dictionary: the handler keeps a store of objects,
  and both hold a reference into it. Its fields \<open>method\<close>, \<open>traffic_in\<close> and
  \<open>traffic_out\<close> are named \<open>http_method\<close>, \<open>info_traffic_in\<close> and \<open>info_traffic_out\<close>
  here, apart from those of \<open>Statistics\<close>.
\<close>

record ConnectionInfo =
  src_ip :: string
  dst_domain :: string
  http_method :: string
  start_time :: string
  info_traffic_in :: int
  info_traffic_out :: int

type_synonym ref = nat
type_synonym conn_key = "string \<times> int"

datatype blacklist_manager =
    FileManager FileBlacklistManager
  | AutoManager AutoBlacklistManager
  | NoManager

record ConnectionHandler =
  fragment_method :: string  \<comment> \<open>\<open>self.config.fragment_method\<close>\<close>
  log_error_file :: bool  \<comment> \<open>whether \<open>config.log_error_file\<close> is set\<close>
  blacklist_manager :: blacklist_manager
  rule_engine :: "rule list"  \<comment> \<open>\<open>self.rule_engine.rules\<close>\<close>
  statistics :: Statistics
  domain_failures :: "string \<rightharpoonup> int"
  active_connections :: "conn_key \<rightharpoonup> ref"
  objects :: "ref \<rightharpoonup> ConnectionInfo"
  access_log :: "string list"  \<comment> \<open>the messages passed to \<open>logger.log_access\<close>\<close>
  error_log :: "string list"  \<comment> \<open>the domains of the messages passed to \<open>logger.log_error\<close>\<close>
  to_client :: "bytes list"  \<comment> \<open>what the client's writer has accepted\<close>
  to_origin :: "bytes list"  \<comment> \<open>what the origin's writer has accepted\<close>

text \<open>
  What the outside world does during one connection: the results of the awaited
  operations, in the order the handler meets them.
\<close>

record environment =
  now_stamp :: string  \<comment> \<open>\<open>datetime.now().strftime(...)\<close>\<close>
  probe_outcome :: probe_result  \<comment> \<open>the outcome of the adaptive blacklist's probe\<close>
  probe_can_append :: bool
  connect_ok :: bool  \<comment> \<open>\<open>_open_connection\<close> returns within \<open>connect_timeout\<close>\<close>
  client_write_ok :: bool  \<comment> \<open>writing and draining \<open>200 Connection Established\<close> succeeds\<close>
  tls_read :: "(bytes \<times> bytes) option"
    \<comment> \<open>\<open>head\<close> and \<open>data\<close>; \<open>None\<close> when one of the two bounded reads raises\<close>
  origin_write_failure :: "nat option"
    \<comment> \<open>the index of the first write to the origin whose \<open>drain\<close> raises, if any\<close>
  draws :: "nat \<Rightarrow> nat"  \<comment> \<open>the raw draws of the random generator\<close>
  client_chunks :: "bytes list"  \<comment> \<open>what the relay reads from the client until it ends\<close>
  origin_chunks :: "bytes list"  \<comment> \<open>what the relay reads from the origin until it ends\<close>
  client_relay_raises :: bool  \<comment> \<open>the relay from the client ends by an exception\<close>
  origin_relay_raises :: bool  \<comment> \<open>the relay from the origin ends by an exception\<close>
  error_write_ok :: bool  \<comment> \<open>writing and draining the 500 response succeeds\<close>

definition encode :: "string \<Rightarrow> bytes" where
  \<comment> \<open>a bytes literal\<close>
  "encode s = map (\<lambda>c. of_nat (of_char c)) s"

definition established :: bytes where
  "established = encode (''HTTP/1.1 200 Connection Established'' @ [CHR 0x0D, CHR 0x0A, CHR 0x0D, CHR 0x0A])"

definition error_response :: bytes where
  "error_response = encode (''HTTP/1.1 500 Internal Server Error'' @ [CHR 0x0D, CHR 0x0A, CHR 0x0D, CHR 0x0A])"

definition add_info_traffic :: "ConnectionHandler \<Rightarrow> ref \<Rightarrow> int \<Rightarrow> int \<Rightarrow> ConnectionHandler" where
  \<comment> \<open>\<open>conn_info.traffic_in += incoming; conn_info.traffic_out += outgoing\<close> on the object
      behind the reference\<close>
  "add_info_traffic self r incoming outgoing =
     (case objects self r of
        None \<Rightarrow> self
      | Some ci \<Rightarrow>
          self\<lparr>objects := (objects self)(r \<mapsto>
                  ci\<lparr>info_traffic_in := info_traffic_in ci + incoming,
                     info_traffic_out := info_traffic_out ci + outgoing\<rparr>)\<rparr>)"

definition log_error :: "ConnectionHandler \<Rightarrow> string \<Rightarrow> ConnectionHandler" where
  \<comment> \<open>\<open>self.logger.log_error(f"{domain} : ...")\<close>. With an error-log file the logger's
      file handler calls back \<open>Statistics.increment_error_connections\<close> for every error
      record (logger.py, wired in app.py and server.py); without one the handler is a
      \<open>NullHandler\<close>.\<close>
  "log_error self domain =
     (let self1 =
            (if log_error_file self
             then self\<lparr>statistics := increment_error_connections (statistics self)\<rparr>
             else self)
      in self1\<lparr>error_log := error_log self1 @ [domain]\<rparr>)"

definition handle_connection_error ::
  "ConnectionHandler \<Rightarrow> environment \<Rightarrow> conn_key option \<Rightarrow> ConnectionHandler" where
  \<comment> \<open>\<open>_handle_connection_error(writer, conn_key)\<close>; \<open>None\<close> is the empty tuple that
      \<open>conn_key\<close> holds before the request is parsed\<close>
  "handle_connection_error self env conn_key =
     (let self1 =
            (if error_write_ok env
             then self\<lparr>to_client := to_client self @ [error_response],
                       statistics := update_traffic (statistics self) (int (length error_response)) 0\<rparr>
             else self);
          conn_info = (case conn_key of None \<Rightarrow> None | Some k \<Rightarrow> active_connections self1 k);
          self2 = (case conn_key of
                     None \<Rightarrow> self1
                   | Some k \<Rightarrow> self1\<lparr>active_connections := (active_connections self1)(k := None)\<rparr>);
          self3 = self2\<lparr>statistics :=
                    increment_error_connections (increment_total_connections (statistics self2))\<rparr>;
          info = (case conn_info of None \<Rightarrow> None | Some r \<Rightarrow> objects self3 r);
          domain = (case info of None \<Rightarrow> ''unknown'' | Some ci \<Rightarrow> dst_domain ci);
          self4 = (case info of
                     None \<Rightarrow> self3
                   | Some ci \<Rightarrow>
                       self3\<lparr>domain_failures := (domain_failures self3)
                          (dst_domain ci \<mapsto> dict_get (domain_failures self3) (dst_domain ci) 0 + 1)\<rparr>)
      in log_error self4 domain)"

definition pipe :: "ConnectionHandler \<Rightarrow> bytes list \<Rightarrow> bool \<Rightarrow> bool \<Rightarrow> ConnectionHandler" where
  \<comment> \<open>\<open>_pipe(reader, writer, is_out)\<close> relaying the chunks \<open>relayed\<close> until its source
      ends or, when \<open>raised\<close>, an exception stops the loop. The exception is caught and
      logged with the domain of the local \<open>conn_info\<close>, and the \<open>finally\<close> block commits
      the volume. The local \<open>conn_info\<close> is set to \<open>None\<close> and never assigned again.\<close>
  "pipe self relayed raised is_out =
     (let conn_info = (None :: ref option);
          local_vol = int (sum_list (map length relayed));
          self0 = (if is_out then self\<lparr>to_origin := to_origin self @ relayed\<rparr>
                   else self\<lparr>to_client := to_client self @ relayed\<rparr>);
          domain = (case conn_info of
                      None \<Rightarrow> ''unknown''
                    | Some r \<Rightarrow> (case objects self0 r of
                                  None \<Rightarrow> ''unknown''
                                | Some ci \<Rightarrow> dst_domain ci));
          self1 = (if raised then log_error self0 domain else self0)
      in if is_out then
           (let self2 = self1\<lparr>statistics := update_traffic (statistics self1) 0 local_vol\<rparr>
            in case conn_info of
                 None \<Rightarrow> self2
               | Some r \<Rightarrow> add_info_traffic self2 r 0 local_vol)
         else
           (let self2 = self1\<lparr>statistics := update_traffic (statistics self1) local_vol 0\<rparr>
            in case conn_info of
                 None \<Rightarrow> self2
               | Some r \<Rightarrow> add_info_traffic self2 r local_vol 0))"

definition access_line :: "ConnectionInfo \<Rightarrow> string" where
  \<comment> \<open>the f-string passed to \<open>log_access\<close>\<close>
  "access_line ci =
     start_time ci @ '' '' @ src_ip ci @ '' '' @ http_method ci @ '' '' @ dst_domain ci
       @ '' '' @ str_int (info_traffic_in ci) @ '' '' @ str_int (info_traffic_out ci)"

definition run_pipes :: "ConnectionHandler \<Rightarrow> environment \<Rightarrow> conn_key \<Rightarrow> ConnectionHandler" where
  \<comment> \<open>\<open>_run_pipes\<close>: the two relays, whose counters commute, then the removal of the
      connection and its access record\<close>
  "run_pipes self env conn_key =
     (let self1 = pipe self (client_chunks env) (client_relay_raises env) True;
          self2 = pipe self1 (origin_chunks env) (origin_relay_raises env) False;
          removed = active_connections self2 conn_key;
          self3 = self2\<lparr>active_connections := (active_connections self2)(conn_key := None)\<rparr>
      in case removed of
           None \<Rightarrow> self3
         | Some r \<Rightarrow>
             (case objects self3 r of
                None \<Rightarrow> self3
              | Some ci \<Rightarrow>
                  (let self4 =
                         (case domain_failures self3 (dst_domain ci) of
                            None \<Rightarrow> self3
                          | Some n \<Rightarrow>
                              self3\<lparr>domain_failures :=
                                 (domain_failures self3)(dst_domain ci \<mapsto> max 0 (n - 1))\<rparr>)
                   in self4\<lparr>access_log := access_log self4 @ [access_line ci]\<rparr>)))"

fun write_all ::
  "ConnectionHandler \<Rightarrow> nat option \<Rightarrow> nat \<Rightarrow> bytes list \<Rightarrow> ConnectionHandler \<times> error option" where
  \<comment> \<open>successive \<open>writer.write(w); await writer.drain()\<close> on the origin's writer, the
      first of which has index \<open>k\<close>; the write with the failing index raises\<close>
  "write_all self failure k [] = (self, None)"
| "write_all self failure k (w # ws) =
     (if failure = Some k then (self, Some ConnectionResetError)
      else write_all (self\<lparr>to_origin := to_origin self @ [w]\<rparr>) failure (Suc k) ws)"

definition manager_is_blocked :: "blacklist_manager \<Rightarrow> string \<Rightarrow> bool" where
  \<comment> \<open>\<open>should_fragment\<close> before the rules: \<open>True\<close> for a \<open>NoBlacklistManager\<close>,
      else the manager's \<open>is_blocked\<close>\<close>
  "manager_is_blocked m domain =
     (case m of
        NoManager \<Rightarrow> True
      | FileManager f \<Rightarrow> is_blocked f domain
      | AutoManager a \<Rightarrow> auto_is_blocked a domain)"

definition handle_initial_tls_data ::
  "ConnectionHandler \<Rightarrow> environment \<Rightarrow> string \<Rightarrow> ref \<Rightarrow> ConnectionHandler \<times> error option" where
  \<comment> \<open>\<open>_handle_initial_tls_data(reader, writer, host, conn_info)\<close>; the result is the
      handler afterwards and the exception that leaves the function, if any\<close>
  "handle_initial_tls_data self env host conn_info =
     (case tls_read env of
        None \<Rightarrow> (log_error self host, None)
      | Some (head, data) \<Rightarrow>
          (let domain = (case objects self conn_info of None \<Rightarrow> host | Some ci \<Rightarrow> dst_domain ci);
               should_fragment0 = manager_is_blocked (blacklist_manager self) domain;
               (rule_decision, rule_method) = decide (rule_engine self) domain;
               should_fragment = (case rule_decision of None \<Rightarrow> should_fragment0 | Some d \<Rightarrow> d)
           in if \<not> should_fragment then
                (let self1 = self\<lparr>statistics :=
                        increment_allowed_connections (increment_total_connections (statistics self))\<rparr>;
                     combined = head @ data
                 in case write_all self1 (origin_write_failure env) 0 [combined] of
                      (self2, Some exn) \<Rightarrow> (self2, Some exn)
                    | (self2, None) \<Rightarrow>
                        (add_info_traffic
                           (self2\<lparr>statistics :=
                               update_traffic (statistics self2) 0 (int (length combined))\<rparr>)
                           conn_info 0 (int (length combined)), None))
              else
                (let self1 = self\<lparr>statistics :=
                        increment_blocked_connections (increment_total_connections (statistics self))\<rparr>;
                     failures = dict_get (domain_failures self1) domain 0;
                     method = choose_method rule_method (fragment_method self1) failures
                 in case build_parts method (draws env) data of
                      Inl exn \<Rightarrow> (self1, Some exn)
                    | Inr built \<Rightarrow>
                        (let writes = initial_writes head built;
                             total = int (sum_list (map length writes))
                         in case write_all self1 (origin_write_failure env) 0 writes of
                              (self2, Some exn) \<Rightarrow> (self2, Some exn)
                            | (self2, None) \<Rightarrow>
                                (add_info_traffic
                                   (self2\<lparr>statistics := update_traffic (statistics self2) 0 total\<rparr>)
                                   conn_info 0 total, None)))))"

definition handle_https_connection ::
  "ConnectionHandler \<Rightarrow> environment \<Rightarrow> string \<Rightarrow> conn_key \<Rightarrow> ref
     \<Rightarrow> ConnectionHandler \<times> error option" where
  \<comment> \<open>\<open>_handle_https_connection\<close>; resolving and connecting are the environment's
      \<open>connect_ok\<close>\<close>
  "handle_https_connection self env host conn_key conn_info =
     (let self1 = add_info_traffic
                    (self\<lparr>statistics := update_traffic (statistics self) (int (length established)) 0\<rparr>)
                    conn_info (int (length established)) 0
      in if \<not> connect_ok env then (handle_connection_error self1 env (Some conn_key), None)
         else if \<not> client_write_ok env then (self1, Some ConnectionResetError)
         else
           (let self2 = self1\<lparr>to_client := to_client self1 @ [established]\<rparr>
            in case handle_initial_tls_data self2 env host conn_info of
                 (self3, Some exn) \<Rightarrow> (self3, Some exn)
               | (self3, None) \<Rightarrow> (run_pipes self3 env conn_key, None)))"

definition handle_http_connection ::
  "ConnectionHandler \<Rightarrow> environment \<Rightarrow> bytes \<Rightarrow> conn_key \<Rightarrow> ConnectionHandler \<times> error option" where
  \<comment> \<open>\<open>_handle_http_connection\<close>\<close>
  "handle_http_connection self env http_data conn_key =
     (if \<not> connect_ok env then (handle_connection_error self env (Some conn_key), None)
      else
        (case write_all self (origin_write_failure env) 0 [http_data] of
           (self1, Some exn) \<Rightarrow> (self1, Some exn)
         | (self1, None) \<Rightarrow>
             (let self2 = self1\<lparr>statistics :=
                     increment_allowed_connections (increment_total_connections (statistics self1))\<rparr>
              in (run_pipes self2 env conn_key, None))))"

definition handle_connection ::
  "ConnectionHandler \<Rightarrow> environment \<Rightarrow> ref \<Rightarrow> conn_key \<Rightarrow> bytes \<Rightarrow> string \<times> string \<Rightarrow> ConnectionHandler" where
  \<comment> \<open>\<open>handle_connection\<close> from the point where \<open>_parse_http_request\<close> has returned
      \<open>method\<close> and \<open>host\<close> (the decision point) to its end; \<open>new\<close> is the reference of
      the \<open>ConnectionInfo\<close> created, \<open>peer\<close> the client's address\<close>
  "handle_connection self env new peer http_data parsed =
     (case parsed of (method, host) \<Rightarrow>
        (let conn_key = peer;
             conn_info = new;
             self1 = self\<lparr>objects := (objects self)(new \<mapsto>
                        \<lparr>src_ip = fst peer, dst_domain = host, http_method = method,
                         start_time = now_stamp env, info_traffic_in = 0, info_traffic_out = 0\<rparr>)\<rparr>;
             self2 = (case blacklist_manager self1 of
                        AutoManager a \<Rightarrow>
                          if method = ''CONNECT''
                          then self1\<lparr>blacklist_manager :=
                                 AutoManager (check_domain a host (probe_outcome env) (probe_can_append env))\<rparr>
                          else self1
                      | _ \<Rightarrow> self1);
             self3 = self2\<lparr>active_connections := (active_connections self2)(conn_key \<mapsto> conn_info)\<rparr>;
             self4 = add_info_traffic
                       (self3\<lparr>statistics := update_traffic (statistics self3) 0 (int (length http_data))\<rparr>)
                       conn_info 0 (int (length http_data));
             (self5, raised) =
                (if method = ''CONNECT'' then handle_https_connection self4 env host conn_key conn_info
                 else handle_http_connection self4 env http_data conn_key)
         in case raised of
              None \<Rightarrow> self5
            | Some exn \<Rightarrow> handle_connection_error self5 env (Some conn_key)))"

definition ConnectionHandler_init ::
  "string \<Rightarrow> blacklist_manager \<Rightarrow> rule list \<Rightarrow> ConnectionHandler" where
  \<comment> \<open>\<open>ConnectionHandler.__init__\<close> with a fresh \<open>Statistics\<close> and, as in the default
      \<open>ProxyConfig\<close>, no error-log file\<close>
  "ConnectionHandler_init method manager rule_list =
     \<lparr>fragment_method = method, log_error_file = False, blacklist_manager = manager,
      rule_engine = rule_list,
      statistics = Statistics_init, domain_failures = Map.empty,
      active_connections = Map.empty, objects = Map.empty,
      access_log = [], error_log = [], to_client = [], to_origin = []\<rparr>"

definition unpaired :: "Statistics \<Rightarrow> int" where
  \<comment> \<open>by how much \<open>total_connections\<close> exceeds the sum of the three outcome counters\<close>
  "unpaired st =
     total_connections st
       - (allowed_connections st + blocked_connections st + errors_connections st)"

section \<open>Properties of the rule engine\<close>

lemma decide_loop_skip:
  "\<forall>r \<in> set pre. \<not> rule_match (str_lower (dict_get r ''pattern'' '''')) d \<Longrightarrow>
   decide_loop (pre @ rs) d = decide_loop rs d"
  by (induction pre) (auto simp: Let_def)

lemma decide_loop_first:
  "rule_match (str_lower (dict_get r ''pattern'' '''')) d \<Longrightarrow>
   decide_loop (r # post) d =
     (if str_lower (dict_get r ''action'' ''auto'') = ''bypass'' then Some False
      else if str_lower (dict_get r ''action'' ''auto'') = ''force'' then Some True
      else None,
      case r ''fragment_method'' of
        None \<Rightarrow> None
      | Some m \<Rightarrow> if m = [] then None else Some (str_lower m))"
  by (simp add: Let_def)

lemma rule_match_iff: "rule_match p d \<longleftrightarrow> p \<noteq> [] \<and> spec_match p d"
proof (cases "startswith p ''*.''")
  case False
  then show ?thesis by (auto simp: rule_match_def spec_match_def)
next
  case True
  then have ne: "p \<noteq> []" by (auto simp: startswith_def)
  have tail: "suffix (drop 1 p) p" by (rule suffix_drop)
  have "endswith d (drop 1 p)" if "spec_match p d"
  proof -
    from that consider "p = d" | "endswith d (drop 1 p)" | "endswith d (''.'' @ p)"
      by (auto simp: spec_match_def)
    then show ?thesis
    proof cases
      case 1
      with tail show ?thesis by (simp add: endswith_def)
    next
      case 2
      then show ?thesis .
    next
      case 3
      then have "suffix p d" by (auto simp: endswith_def dest: suffix_ConsD)
      with tail show ?thesis unfolding endswith_def by (rule suffix_order.trans)
    qed
  qed
  moreover have "spec_match p d" if "endswith d (drop 1 p)"
    using that True by (simp add: spec_match_def)
  ultimately show ?thesis using True ne by (auto simp: rule_match_def)
qed

text \<open>
  Claim C4, as amended. Pattern \<open>*.example.com\<close> matches \<open>foo.example.com\<close> but not
  \<open>example.com\<close>; pattern \<open>example.com\<close> matches \<open>example.com\<close> and
  \<open>sub.example.com\<close>; pattern \<open>example\<close> does not match \<open>myexample.com\<close>. An empty
  pattern matches nothing. A non-empty pattern matches iff pattern equals domain, or
  pattern starts with \<open>*.\<close> and domain ends with \<open>pattern[1:]\<close>, or domain ends with
  \<open>"." + pattern\<close>; for a pattern that starts with \<open>*.\<close> this is: domain ends with
  \<open>pattern[1:]\<close>. Patterns and domain are compared in lowercase. The first matching
  rule in list order decides: \<open>decide\<close> returns \<open>False\<close> for its action \<open>bypass\<close>, \<open>True\<close>
  for \<open>force\<close> and \<open>None\<close> for any other action, each with the rule's lowercased
  \<open>fragment_method\<close> (\<open>None\<close> when absent or empty); when no rule matches it returns
  \<open>(None, None)\<close>.
\<close>

theorem rule_matching_amended:
  "rule_match ''*.example.com'' ''foo.example.com''
   \<and> \<not> rule_match ''*.example.com'' ''example.com''
   \<and> rule_match ''example.com'' ''example.com''
   \<and> rule_match ''example.com'' ''sub.example.com''
   \<and> \<not> rule_match ''example'' ''myexample.com''
   \<and> \<not> rule_match [] d
   \<and> (rule_match p d \<longleftrightarrow> p \<noteq> [] \<and> spec_match p d)
   \<and> (startswith p ''*.'' \<longrightarrow> rule_match p d = endswith d (drop 1 p))
   \<and> ((\<forall>r \<in> set pre. \<not> rule_match (str_lower (dict_get r ''pattern'' '''')) (str_lower domain))
        \<and> rule_match (str_lower (dict_get r ''pattern'' '''')) (str_lower domain)
       \<longrightarrow> decide (pre @ r # post) domain =
             (if str_lower (dict_get r ''action'' ''auto'') = ''bypass'' then Some False
              else if str_lower (dict_get r ''action'' ''auto'') = ''force'' then Some True
              else None,
              case r ''fragment_method'' of
                None \<Rightarrow> None
              | Some m \<Rightarrow> if m = [] then None else Some (str_lower m)))
   \<and> ((\<forall>r \<in> set rs. \<not> rule_match (str_lower (dict_get r ''pattern'' '''')) (str_lower domain))
       \<longrightarrow> decide rs domain = (None, None))"
proof -
  have examples:
    "rule_match ''*.example.com'' ''foo.example.com''"
    "\<not> rule_match ''*.example.com'' ''example.com''"
    "rule_match ''example.com'' ''example.com''"
    "rule_match ''example.com'' ''sub.example.com''"
    "\<not> rule_match ''example'' ''myexample.com''"
    by (simp_all add: rule_match_def startswith_def endswith_def suffix_to_prefix)
  have empty: "\<not> rule_match [] d"
    by (simp add: rule_match_def)
  have general: "rule_match p d \<longleftrightarrow> p \<noteq> [] \<and> spec_match p d"
    by (rule rule_match_iff)
  have wild: "startswith p ''*.'' \<longrightarrow> rule_match p d = endswith d (drop 1 p)"
    by (auto simp: rule_match_def startswith_def)
  have first: "(\<forall>r \<in> set pre. \<not> rule_match (str_lower (dict_get r ''pattern'' '''')) (str_lower domain))
        \<and> rule_match (str_lower (dict_get r ''pattern'' '''')) (str_lower domain)
       \<longrightarrow> decide (pre @ r # post) domain =
             (if str_lower (dict_get r ''action'' ''auto'') = ''bypass'' then Some False
              else if str_lower (dict_get r ''action'' ''auto'') = ''force'' then Some True
              else None,
              case r ''fragment_method'' of
                None \<Rightarrow> None
              | Some m \<Rightarrow> if m = [] then None else Some (str_lower m))"
  proof
    assume a: "(\<forall>r \<in> set pre. \<not> rule_match (str_lower (dict_get r ''pattern'' '''')) (str_lower domain))
        \<and> rule_match (str_lower (dict_get r ''pattern'' '''')) (str_lower domain)"
    then have "decide_loop (pre @ r # post) (str_lower domain)
        = decide_loop (r # post) (str_lower domain)"
      by (intro decide_loop_skip) simp
    also have "\<dots> =
             (if str_lower (dict_get r ''action'' ''auto'') = ''bypass'' then Some False
              else if str_lower (dict_get r ''action'' ''auto'') = ''force'' then Some True
              else None,
              case r ''fragment_method'' of
                None \<Rightarrow> None
              | Some m \<Rightarrow> if m = [] then None else Some (str_lower m))"
      using a by (intro decide_loop_first) simp
    finally show "decide (pre @ r # post) domain =
             (if str_lower (dict_get r ''action'' ''auto'') = ''bypass'' then Some False
              else if str_lower (dict_get r ''action'' ''auto'') = ''force'' then Some True
              else None,
              case r ''fragment_method'' of
                None \<Rightarrow> None
              | Some m \<Rightarrow> if m = [] then None else Some (str_lower m))"
      by (simp add: decide_def)
  qed
  have none: "(\<forall>r \<in> set rs. \<not> rule_match (str_lower (dict_get r ''pattern'' '''')) (str_lower domain))
       \<longrightarrow> decide rs domain = (None, None)"
    unfolding decide_def using decide_loop_skip [of rs "str_lower domain" "[]"] by simp
  from examples empty general wild first none show ?thesis by blast
qed

theorem rule_matching_amended_witness:
  "decide ([[''pattern'' \<mapsto> ''*.other.org'', ''action'' \<mapsto> ''bypass'']]
           @ [''pattern'' \<mapsto> ''Example.com'', ''action'' \<mapsto> ''Force'', ''fragment_method'' \<mapsto> ''SNI'']
           # [[''pattern'' \<mapsto> ''sub.example.com'', ''action'' \<mapsto> ''bypass'']])
      ''Sub.Example.COM''
     = (Some True, Some ''sni'')
   \<and> decide [[''pattern'' \<mapsto> ''*.other.org'', ''action'' \<mapsto> ''bypass'']] ''example.com''
     = (None, None)
   \<and> spec_match ''example.com'' ''sub.example.com''
   \<and> rule_match ''*.example.com'' ''a.b.example.com''
       = endswith ''a.b.example.com'' (drop 1 ''*.example.com'')"
proof -
  let ?pre = "[[''pattern'' \<mapsto> ''*.other.org'', ''action'' \<mapsto> ''bypass'']]"
  let ?r = "[''pattern'' \<mapsto> ''Example.com'', ''action'' \<mapsto> ''Force'', ''fragment_method'' \<mapsto> ''SNI'']"
  let ?post = "[[''pattern'' \<mapsto> ''sub.example.com'', ''action'' \<mapsto> ''bypass'']]"
  have h1: "(\<forall>r \<in> set ?pre.
              \<not> rule_match (str_lower (dict_get r ''pattern'' '''')) (str_lower ''Sub.Example.COM''))
            \<and> rule_match (str_lower (dict_get ?r ''pattern'' '''')) (str_lower ''Sub.Example.COM'')"
    by (simp add: rule_match_def startswith_def endswith_def suffix_to_prefix
          str_lower_def lower_char_def dict_get_def)
  have h2: "\<forall>r \<in> set ?pre.
              \<not> rule_match (str_lower (dict_get r ''pattern'' '''')) (str_lower ''example.com'')"
    by (simp add: rule_match_def startswith_def endswith_def suffix_to_prefix
          str_lower_def lower_char_def dict_get_def)
  have h3: "startswith ''*.example.com'' ''*.''"
    by (simp add: startswith_def)
  have a: "decide (?pre @ ?r # ?post) ''Sub.Example.COM'' =
             (if str_lower (dict_get ?r ''action'' ''auto'') = ''bypass'' then Some False
              else if str_lower (dict_get ?r ''action'' ''auto'') = ''force'' then Some True
              else None,
              case ?r ''fragment_method'' of
                None \<Rightarrow> None
              | Some m \<Rightarrow> if m = [] then None else Some (str_lower m))"
    using rule_matching_amended
         [where pre = ?pre and domain = "''Sub.Example.COM''" and r = ?r and post = ?post] h1
    by blast
  have b: "decide ?pre ''example.com'' = (None, None)"
    using rule_matching_amended
         [where rs = ?pre and domain = "''example.com''"] h2
    by blast
  have c: "spec_match ''example.com'' ''sub.example.com''"
    using rule_matching_amended
         [where p = "''example.com''" and d = "''sub.example.com''"]
    by blast
  have d: "rule_match ''*.example.com'' ''a.b.example.com''
       = endswith ''a.b.example.com'' (drop 1 ''*.example.com'')"
    using rule_matching_amended
         [where p = "''*.example.com''" and d = "''a.b.example.com''"] h3
    by blast
  have "decide (?pre @ ?r # ?post) ''Sub.Example.COM'' = (Some True, Some ''sni'')"
    unfolding a by (simp add: str_lower_def lower_char_def dict_get_def)
  with b c d show ?thesis by blast
qed

text \<open>
  Claim C4 as stated fails: it says that \<open>*.example.com\<close> also matches \<open>example.com\<close>.
  \<open>_match\<close> compares with \<open>pattern[1:]\<close>, which keeps the dot, so a rule
  \<open>*.example.com\<close> with action \<open>force\<close> leaves \<open>example.com\<close> undecided.
\<close>

theorem rule_matching_counterexample:
  "\<not> rule_match ''*.example.com'' ''example.com''
   \<and> decide [[''pattern'' \<mapsto> ''*.example.com'', ''action'' \<mapsto> ''force'']] ''example.com''
       = (None, None)"
  by (simp add: decide_def dict_get_def str_lower_def lower_char_def rule_match_def
        startswith_def endswith_def suffix_to_prefix)
section \<open>Properties of the file-backed blacklist\<close>

lemma split_not_Nil: "split c s \<noteq> []"
  by (induction s) (auto split: list.splits)

lemma join_split: "join [c] (split c s) = s"
proof (induction s)
  case Nil
  show ?case by simp
next
  case (Cons a s)
  obtain p ps where "split c s = p # ps"
    using split_not_Nil by (cases "split c s") auto
  with Cons show ?case by (cases ps) auto
qed

lemma split_append: "split c (p @ c # s) = split c p @ split c s"
proof (induction p)
  case Nil
  show ?case by simp
next
  case (Cons a p)
  obtain q qs where "split c p = q # qs"
    using split_not_Nil by (cases "split c p") auto
  with Cons show ?case by auto
qed

lemma join_take_drop:
  "0 < i \<Longrightarrow> i < length ps \<Longrightarrow>
   join sep ps = join sep (take i ps) @ sep @ join sep (drop i ps)"
proof (induction sep ps arbitrary: i rule: join.induct)
  case (1 sep)
  then show ?case by simp
next
  case (2 sep p)
  then show ?case by simp
next
  case (3 sep p q ps)
  show ?case
  proof (cases i)
    case 0
    with 3 show ?thesis by simp
  next
    case (Suc j)
    note i = this
    show ?thesis
    proof (cases j)
      case 0
      with i show ?thesis by simp
    next
      case (Suc k)
      from Suc "3.prems" i have "0 < j" "j < length (q # ps)" by simp_all
      then have "join sep (q # ps)
          = join sep (take j (q # ps)) @ sep @ join sep (drop j (q # ps))"
        by (rule "3.IH")
      with Suc i show ?thesis by simp
    qed
  qed
qed

lemma suffix_loop_iff:
  "suffix_loop S parts is \<longleftrightarrow> (\<exists>i \<in> set is. join ''.'' (drop i parts) \<in> S)"
  by (induction "is") auto

lemma parent_iff_suffix:
  "(\<exists>i \<in> {1..<length (split c d)}. join [c] (drop i (split c d)) = s) \<longleftrightarrow> suffix (c # s) d"
proof
  assume "\<exists>i \<in> {1..<length (split c d)}. join [c] (drop i (split c d)) = s"
  then obtain i where "i \<in> {1..<length (split c d)}"
    and s: "join [c] (drop i (split c d)) = s"
    by blast
  then have i: "0 < i" "i < length (split c d)" by simp_all
  have "d = join [c] (split c d)" by (simp add: join_split)
  also have "\<dots> = join [c] (take i (split c d)) @ [c] @ s"
    using join_take_drop [OF i, of "[c]"] s by simp
  finally show "suffix (c # s) d" by (metis append_Cons append_Nil suffixI)
next
  assume "suffix (c # s) d"
  then obtain p where d: "d = p @ c # s" by (auto simp: suffix_def)
  have sp: "split c d = split c p @ split c s" by (simp add: d split_append)
  let ?i = "length (split c p)"
  have "0 < ?i" using split_not_Nil [of c p] by (cases "split c p") auto
  moreover have "?i < length (split c d)" using split_not_Nil [of c s] by (simp add: sp)
  moreover have "join [c] (drop ?i (split c d)) = s" by (simp add: sp join_split)
  ultimately have "?i \<in> {1..<length (split c d)} \<and> join [c] (drop ?i (split c d)) = s"
    by (simp add: Suc_le_eq)
  then show "\<exists>i \<in> {1..<length (split c d)}. join [c] (drop i (split c d)) = s"
    by blast
qed

lemma is_blocked_strict:
  "domain_matching self \<noteq> ''loose'' \<Longrightarrow>
   is_blocked self domain = strict_lookup (blocked_set self) (str_remove ''www.'' domain)"
  by (auto simp: is_blocked_def strict_lookup_def Let_def suffix_loop_iff)

lemma strict_lookup_suffix:
  "strict_lookup S d \<longleftrightarrow> (\<exists>s \<in> S. d = s \<or> suffix (''.'' @ s) d)"
proof -
  have "join ''.'' (drop i (split (CHR ''.'') d)) \<in> S
          \<longleftrightarrow> (\<exists>s \<in> S. join ''.'' (drop i (split (CHR ''.'') d)) = s)" for i
    by simp
  then have "(\<exists>i \<in> {1..<length (split (CHR ''.'') d)}. join ''.'' (drop i (split (CHR ''.'') d)) \<in> S)
        \<longleftrightarrow> (\<exists>s \<in> S. \<exists>i \<in> {1..<length (split (CHR ''.'') d)}.
               join ''.'' (drop i (split (CHR ''.'') d)) = s)"
    by blast
  also have "\<dots> \<longleftrightarrow> (\<exists>s \<in> S. suffix (CHR ''.'' # s) d)"
    by (simp only: parent_iff_suffix)
  finally show ?thesis by (auto simp: strict_lookup_def)
qed

text \<open>
  Claim C7, as amended. For every queried domain that is already lowercase, the strict
  file-backed \<open>is_blocked\<close> returns true iff the domain with every occurrence of
  \<open>www.\<close> removed (not only a leading one) is in the loaded set, or one of its strict
  parent domains (the labels after the first \<open>i\<close> dots, \<open>1 \<le> i < len(parts)\<close>) is in
  the set; equivalently, iff some entry \<open>s\<close> of the set equals that domain or is
  preceded in it by a dot.
\<close>

theorem is_blocked_strict_amended:
  "domain_matching self \<noteq> ''loose'' \<and> str_lower domain = domain \<longrightarrow>
     (is_blocked self domain
        \<longleftrightarrow> strict_lookup (blocked_set self) (str_remove ''www.'' (str_lower domain)))
     \<and> (is_blocked self domain
        \<longleftrightarrow> (\<exists>s \<in> blocked_set self.
               str_remove ''www.'' (str_lower domain) = s
               \<or> endswith (str_remove ''www.'' (str_lower domain)) (''.'' @ s)))"
  using is_blocked_strict [of self domain]
    strict_lookup_suffix [of "blocked_set self" "str_remove ''www.'' domain"]
  by (auto simp: endswith_def)

theorem is_blocked_strict_amended_witness:
  "is_blocked \<lparr>domain_matching = ''strict'', blocked = [''example.com''],
               blocked_set = {''example.com''}\<rparr> ''www.a.b.example.com''
   \<and> \<not> is_blocked \<lparr>domain_matching = ''strict'', blocked = [''example.com''],
               blocked_set = {''example.com''}\<rparr> ''myexample.com''"
  using is_blocked_strict_amended
      [of "\<lparr>domain_matching = ''strict'', blocked = [''example.com''],
            blocked_set = {''example.com''}\<rparr>" "''www.a.b.example.com''"]
    is_blocked_strict_amended
      [of "\<lparr>domain_matching = ''strict'', blocked = [''example.com''],
            blocked_set = {''example.com''}\<rparr>" "''myexample.com''"]
  by (simp add: str_lower_def lower_char_def endswith_def suffix_to_prefix strict_lookup_def
        atLeastLessThanSuc)

text \<open>
  Claim C7 as stated fails: the code removes every occurrence of \<open>www.\<close>, at load time
  and at query time, where the claim strips a prefix. With the file holding the line
  \<open>ab.com\<close>, the query \<open>awww.b.com\<close> becomes \<open>ab.com\<close> and is reported blocked, although
  neither \<open>awww.b.com\<close> nor its parents \<open>b.com\<close> and \<open>com\<close> are in the set.
\<close>

theorem is_blocked_www_counterexample:
  "(case FileBlacklistManager_init ''strict'' (Some [''ab.com'' @ [CHR 0x0A]]) of
      Inl e \<Rightarrow> False
    | Inr self \<Rightarrow>
        blocked_set self = {''ab.com''}
        \<and> is_blocked self ''awww.b.com''
        \<and> \<not> strict_lookup (blocked_set self) (strip_www_prefix ''awww.b.com''))"
  by (simp add: FileBlacklistManager_init_def load_blacklist_def load_line_def strip_def
        is_space_def str_lower_def lower_char_def is_blocked_def strict_lookup_def
        strip_www_prefix_def Let_def atLeastLessThanSuc)

text \<open>
  The query is not lowercased by \<open>is_blocked\<close>, although the entries are when the file
  is loaded: an upper-case spelling of a listed domain is not found.
\<close>

lemma is_blocked_case_sensitive:
  "(case FileBlacklistManager_init ''strict'' (Some [''Example.com'' @ [CHR 0x0A]]) of
      Inl e \<Rightarrow> False
    | Inr self \<Rightarrow> is_blocked self ''example.com'' \<and> \<not> is_blocked self ''Example.com'')"
  by (simp add: FileBlacklistManager_init_def load_blacklist_def load_line_def strip_def
        is_space_def str_lower_def lower_char_def is_blocked_def Let_def)
section \<open>Properties of the adaptive blacklist\<close>

lemma check_domain_sets:
  "auto_blocked_set self \<subseteq> auto_blocked_set (check_domain self dec outcome ok)
   \<and> auto_whitelist_set self \<subseteq> auto_whitelist_set (check_domain self dec outcome ok)
   \<and> (auto_blocked_set self \<inter> auto_whitelist_set self = {} \<longrightarrow>
        auto_blocked_set (check_domain self dec outcome ok)
          \<inter> auto_whitelist_set (check_domain self dec outcome ok) = {})"
  by (auto simp: check_domain_def check_domain_guard_def check_domain_resume_def Let_def
           split: probe_result.splits)

lemma check_all_sets:
  "auto_blocked_set self \<inter> auto_whitelist_set self = {} \<Longrightarrow>
   auto_blocked_set self \<subseteq> auto_blocked_set (check_all self calls)
   \<and> auto_whitelist_set self \<subseteq> auto_whitelist_set (check_all self calls)
   \<and> auto_blocked_set (check_all self calls) \<inter> auto_whitelist_set (check_all self calls) = {}"
proof (induction calls arbitrary: self)
  case Nil
  then show ?case by simp
next
  case (Cons call calls)
  obtain dec outcome ok where call: "call = (dec, outcome, ok)" by (cases call) auto
  let ?s = "check_domain self dec outcome ok"
  from check_domain_sets [of self dec outcome ok] Cons.prems
  have a: "auto_blocked_set self \<subseteq> auto_blocked_set ?s"
    and b: "auto_whitelist_set self \<subseteq> auto_whitelist_set ?s"
    and c: "auto_blocked_set ?s \<inter> auto_whitelist_set ?s = {}" by simp_all
  from Cons.IH [OF c] a b show ?case by (auto simp: call)
qed

text \<open>
  Claim C8, as amended. For a domain that is in neither set, the outcome of the probe is
  classified as follows: success adds the domain to the whitelist set; a \<open>URLError\<close>
  whose reason string contains \<open>handshake operation timed out\<close> adds it to the blocked
  set and appends it, with a newline, to the backing file (when the file cannot be
  written the failure is ignored and only the set changes); a \<open>URLError\<close> with any other
  reason changes neither set nor the file; any exception that is not a \<open>URLError\<close> adds
  the domain to the whitelist set.
\<close>

theorem check_domain_outcomes_amended:
  "\<not> check_domain_guard self dec \<longrightarrow>
     check_domain self dec ProbeSuccess can_append
       = self\<lparr>auto_whitelist_set := insert dec (auto_whitelist_set self)\<rparr>
     \<and> (sublist ''handshake operation timed out'' reason \<longrightarrow>
          check_domain self dec (ProbeURLError (Some reason)) True
            = self\<lparr>auto_blocked_set := insert dec (auto_blocked_set self),
                   backing_file := backing_file self @ dec @ [CHR 0x0A]\<rparr>
          \<and> check_domain self dec (ProbeURLError (Some reason)) False
            = self\<lparr>auto_blocked_set := insert dec (auto_blocked_set self)\<rparr>)
     \<and> (\<not> sublist ''handshake operation timed out'' reason \<longrightarrow>
          check_domain self dec (ProbeURLError (Some reason)) can_append = self)
     \<and> check_domain self dec (ProbeURLError None) can_append = self
     \<and> check_domain self dec ProbeException can_append
       = self\<lparr>auto_whitelist_set := insert dec (auto_whitelist_set self)\<rparr>"
  by (simp add: check_domain_def check_domain_resume_def)

theorem check_domain_outcomes_amended_witness:
  "check_domain (AutoBlacklistManager_init ''old.test'') ''x.test''
      (ProbeURLError (Some ''_ssl.c:1000: The handshake operation timed out'')) True
     = \<lparr>auto_blocked_set = {''x.test''}, auto_whitelist_set = {},
        backing_file = ''old.test'' @ ''x.test'' @ [CHR 0x0A]\<rparr>
   \<and> check_domain (AutoBlacklistManager_init ''old.test'') ''x.test''
      (ProbeURLError (Some ''[Errno 111] Connection refused'')) True
     = AutoBlacklistManager_init ''old.test''"
proof -
  have h1: "\<not> check_domain_guard (AutoBlacklistManager_init ''old.test'') ''x.test''"
    by (simp add: check_domain_guard_def AutoBlacklistManager_init_def)
  have h2: "sublist ''handshake operation timed out''
              ''_ssl.c:1000: The handshake operation timed out''"
    by (simp add: sublist_code)
  have h3: "\<not> sublist ''handshake operation timed out'' ''[Errno 111] Connection refused''"
    by (simp add: sublist_code)
  from check_domain_outcomes_amended
         [of "AutoBlacklistManager_init ''old.test''" "''x.test''" True
             "''_ssl.c:1000: The handshake operation timed out''"]
       check_domain_outcomes_amended
         [of "AutoBlacklistManager_init ''old.test''" "''x.test''" True
             "''[Errno 111] Connection refused''"]
       h1 h2 h3
  show ?thesis by (simp add: AutoBlacklistManager_init_def)
qed

text \<open>
  Claim C8 as stated fails: a failure that is a \<open>URLError\<close> with another reason (a
  refused connection, a DNS failure, an HTTP error status) is caught by the
  \<open>except URLError\<close> branch, which adds the domain to no set.
\<close>

theorem check_domain_other_urlerror_counterexample:
  "''x.test'' \<notin> auto_whitelist_set
      (check_domain (AutoBlacklistManager_init []) ''x.test''
         (ProbeURLError (Some ''[Errno 111] Connection refused'')) True)"
  by (simp add: AutoBlacklistManager_init_def check_domain_def check_domain_guard_def
        check_domain_resume_def sublist_code)

text \<open>
  Claim C10, as amended. For every domain already present in the blocked set or the
  whitelist set, a \<open>check_domain\<close> call returns at its guard: whatever the probe would
  answer, neither set nor the backing file changes, and no probe is started. When the
  calls do not overlap (each one completes before the next begins) and the two sets
  are disjoint, they stay disjoint and only grow, so a domain's classification never
  changes once made.
\<close>

theorem check_domain_classified_amended:
  "(check_domain_guard self dec \<longrightarrow>
      check_domain self dec outcome can_append = self
      \<and> step (self, pending) (Call dec) = (self, pending))
   \<and> (auto_blocked_set self \<inter> auto_whitelist_set self = {} \<longrightarrow>
        auto_blocked_set self \<subseteq> auto_blocked_set (check_all self calls)
        \<and> auto_whitelist_set self \<subseteq> auto_whitelist_set (check_all self calls)
        \<and> auto_blocked_set (check_all self calls)
            \<inter> auto_whitelist_set (check_all self calls) = {})"
  using check_all_sets [of self calls] by (simp add: check_domain_def)

theorem check_domain_classified_amended_witness:
  "check_domain
      \<lparr>auto_blocked_set = {''a.test''}, auto_whitelist_set = {''b.test''}, backing_file = []\<rparr>
      ''b.test'' (ProbeURLError (Some ''handshake operation timed out'')) True
    = \<lparr>auto_blocked_set = {''a.test''}, auto_whitelist_set = {''b.test''}, backing_file = []\<rparr>
   \<and> ''a.test'' \<notin> auto_whitelist_set
        (check_all
           \<lparr>auto_blocked_set = {''a.test''}, auto_whitelist_set = {''b.test''}, backing_file = []\<rparr>
           [(''a.test'', ProbeSuccess, True), (''c.test'', ProbeException, True)])"
proof -
  let ?m = "\<lparr>auto_blocked_set = {''a.test''}, auto_whitelist_set = {''b.test''},
             backing_file = []\<rparr>"
  have h1: "check_domain_guard ?m ''b.test''"
    by (simp add: check_domain_guard_def)
  have h2: "auto_blocked_set ?m \<inter> auto_whitelist_set ?m = {}"
    by simp
  have h3: "''a.test'' \<in> auto_blocked_set ?m"
    by simp
  from check_domain_classified_amended
         [of ?m "''b.test''" "ProbeURLError (Some ''handshake operation timed out'')" True "[]"
             "[(''a.test'', ProbeSuccess, True), (''c.test'', ProbeException, True)]"]
       h1 h2 h3
  show ?thesis by blast
qed

text \<open>
  Claim C10 as stated fails for overlapping calls. Two connection tasks call
  \<open>check_domain\<close> for the same unclassified domain; both pass the guard before either
  probe has completed. One probe times out in the handshake, the other succeeds: the
  domain ends in the blocked set and in the whitelist set.
\<close>

theorem check_domain_overlap_counterexample:
  "''x.test'' \<in> auto_blocked_set (fst (run_events (AutoBlacklistManager_init [])
       [Call ''x.test'', Call ''x.test'',
        Resume ''x.test'' (ProbeURLError (Some ''The handshake operation timed out'')) True,
        Resume ''x.test'' ProbeSuccess True]))
   \<and> ''x.test'' \<in> auto_whitelist_set (fst (run_events (AutoBlacklistManager_init [])
       [Call ''x.test'', Call ''x.test'',
        Resume ''x.test'' (ProbeURLError (Some ''The handshake operation timed out'')) True,
        Resume ''x.test'' ProbeSuccess True]))"
  by (simp add: run_events_def AutoBlacklistManager_init_def check_domain_guard_def
        check_domain_resume_def sublist_code)
section \<open>Properties of the DNS cache\<close>

lemma cache_store_ok:
  "0 < max_entries self \<Longrightarrow>
   cache_store self now key addrs =
     Inr (self\<lparr>cache := AList.update key (now + ttl self, addrs)
                   (if int (length (cache self)) \<ge> max_entries self then tl (cache self)
                    else cache self)\<rparr>)"
  by (cases "cache self") (auto simp: cache_store_def)

text \<open>
  Claim C9. \<open>resolve\<close> never returns an expired record. A cached address list whose
  stored expiry is strictly later than the clock is returned as it is, the cache
  unchanged and the resolution not consulted. Otherwise the resolution is performed;
  when it succeeds, its list is returned, and the cache gets \<open>(now + ttl, addrs)\<close> under
  the key, after the oldest entry has been removed if the cache held \<open>max_entries\<close>
  entries or more. Whatever list is returned is that of an unexpired entry or the fresh
  one.
\<close>

theorem resolve_never_expired:
  "(map_of (cache self) (cache_key host port) = Some (expiry, addrs) \<and> now < expiry
      \<longrightarrow> resolve self now host port getaddrinfo = (Inr addrs, self))
   \<and> ((\<forall>expiry addrs. map_of (cache self) (cache_key host port) = Some (expiry, addrs)
                        \<longrightarrow> expiry \<le> now)
       \<and> getaddrinfo = Inr fresh \<and> 0 < max_entries self
      \<longrightarrow> resolve self now host port getaddrinfo =
            (Inr fresh,
             self\<lparr>cache := AList.update (cache_key host port) (now + ttl self, fresh)
                     (if int (length (cache self)) \<ge> max_entries self then tl (cache self)
                      else cache self)\<rparr>))
   \<and> (resolve self now host port getaddrinfo = (Inr result, self')
      \<longrightarrow> (\<exists>expiry. map_of (cache self) (cache_key host port) = Some (expiry, result)
                     \<and> now < expiry \<and> self' = self)
          \<or> getaddrinfo = Inr result)"
proof (intro conjI impI)
  assume "map_of (cache self) (cache_key host port) = Some (expiry, addrs) \<and> now < expiry"
  then show "resolve self now host port getaddrinfo = (Inr addrs, self)"
    by (simp add: resolve_def)
next
  assume a: "(\<forall>expiry addrs. map_of (cache self) (cache_key host port) = Some (expiry, addrs)
                        \<longrightarrow> expiry \<le> now)
       \<and> getaddrinfo = Inr fresh \<and> 0 < max_entries self"
  then have miss: "resolve self now host port getaddrinfo
      = resolve_miss self now (cache_key host port) getaddrinfo"
    by (cases "map_of (cache self) (cache_key host port)")
       (auto simp: resolve_def Let_def not_less [symmetric])
  from a show "resolve self now host port getaddrinfo =
            (Inr fresh,
             self\<lparr>cache := AList.update (cache_key host port) (now + ttl self, fresh)
                     (if int (length (cache self)) \<ge> max_entries self then tl (cache self)
                      else cache self)\<rparr>)"
    unfolding miss by (simp add: resolve_miss_def cache_store_ok)
next
  assume "resolve self now host port getaddrinfo = (Inr result, self')"
  then show "(\<exists>expiry. map_of (cache self) (cache_key host port) = Some (expiry, result)
                     \<and> now < expiry \<and> self' = self)
          \<or> getaddrinfo = Inr result"
    by (auto simp: resolve_def resolve_miss_def Let_def split: option.splits if_splits sum.splits)
qed

theorem resolve_never_expired_witness:
  "resolve \<lparr>ttl = 60 :: int, max_entries = 2,
            cache = [(''a.test:80'', 5, [1 :: nat]), (''b.test:443'', 100, [2])]\<rparr>
      50 ''b.test'' 443 (Inr [9])
     = (Inr [2], \<lparr>ttl = 60, max_entries = 2,
                  cache = [(''a.test:80'', 5, [1]), (''b.test:443'', 100, [2])]\<rparr>)
   \<and> resolve \<lparr>ttl = 60 :: int, max_entries = 2,
            cache = [(''a.test:80'', 5, [1 :: nat]), (''b.test:443'', 100, [2])]\<rparr>
      50 ''a.test'' 80 (Inr [9])
     = (Inr [9], \<lparr>ttl = 60, max_entries = 2,
                  cache = [(''b.test:443'', 100, [2]), (''a.test:80'', 110, [9])]\<rparr>)"
  using resolve_never_expired
      [of "\<lparr>ttl = 60 :: int, max_entries = 2,
            cache = [(''a.test:80'', 5, [1 :: nat]), (''b.test:443'', 100, [2])]\<rparr>"
          "''b.test''" 443 100 "[2]" 50 "Inr [9]" "[9]" "[2]"
          "\<lparr>ttl = 60 :: int, max_entries = 2,
            cache = [(''a.test:80'', 5, [1 :: nat]), (''b.test:443'', 100, [2])]\<rparr>"]
    resolve_never_expired
      [of "\<lparr>ttl = 60 :: int, max_entries = 2,
            cache = [(''a.test:80'', 5, [1 :: nat]), (''b.test:443'', 100, [2])]\<rparr>"
          "''a.test''" 80 5 "[1]" 50 "Inr [9]" "[9]" "[9]"
          "\<lparr>ttl = 60 :: int, max_entries = 2,
            cache = [(''b.test:443'', 100, [2]), (''a.test:80'', 110, [9])]\<rparr>"]
  by (simp add: cache_key_def str_int_def digits.simps)
section \<open>Properties of the fragmentation\<close>

lemma mk_record_ok: "length p < 65536 \<Longrightarrow> mk_record (length p) p = Inr (tls_record p)"
  by (simp add: mk_record_def to_bytes2_def tls_record_def hdr_def)

lemma drop5_tls_record: "drop 5 (tls_record p) = p"
  by (simp add: tls_record_def)

lemma mk_records_ok:
  "\<forall>p \<in> set ps. length p < 65536 \<Longrightarrow> mk_records ps = Inr (map tls_record ps)"
  by (induction ps) (simp_all add: mk_record_ok)

lemma split_loop_chunks:
  "idx \<le> length data \<Longrightarrow>
   split_loop data idx parts = Inr (parts @ map tls_record (chunks 32 (drop idx data)))"
proof (induction data idx parts rule: split_loop.induct)
  case (1 data idx parts)
  show ?case
  proof (cases "idx < length data")
    case False
    with 1 show ?thesis by (simp add: split_loop.simps)
  next
    case True
    let ?n = "min 32 (length data - idx)"
    let ?p = "py_slice data idx (idx + ?n)"
    have p: "?p = take 32 (drop idx data)"
      by (simp add: py_slice_def min_def)
    have len: "length ?p = ?n" using True by (simp add: py_slice_def)
    then have rec: "mk_record ?n ?p = Inr (tls_record ?p)"
      using mk_record_ok [of ?p] by simp
    have le: "idx + ?n \<le> length data" using True by simp
    have IH: "split_loop data (idx + ?n) (parts @ [tls_record ?p])
        = Inr ((parts @ [tls_record ?p]) @ map tls_record (chunks 32 (drop (idx + ?n) data)))"
      using "1.IH" [OF True refl rec le] .
    obtain x xs where d: "drop idx data = x # xs"
      using True by (cases "drop idx data") auto
    have dd: "drop (idx + ?n) data = drop 32 (drop idx data)"
      using True by (simp add: min_def add.commute)
    have "chunks 32 (drop idx data) = ?p # chunks 32 (drop (idx + ?n) data)"
      unfolding p dd by (simp add: d)
    with IH rec True show ?thesis
      by (subst split_loop.simps) (simp add: Let_def)
  qed
qed

lemma concat_chunks: "0 < n \<Longrightarrow> concat (chunks n xs) = xs"
proof (induction n xs rule: chunks.induct)
  case (1 n)
  then show ?case by simp
next
  case (2 n x xs)
  then show ?case by simp
qed

lemma random_loop_ok:
  "length data < 65536 \<Longrightarrow>
   \<exists>ps. random_loop rng k data parts = Inr (parts @ map tls_record ps, [])
        \<and> concat ps = data \<and> [] \<notin> set ps"
proof (induction rng k data parts rule: random_loop.induct)
  case (1 rng k data parts)
  show ?case
  proof (cases "data = []")
    case True
    then have "random_loop rng k data parts = Inr (parts @ map tls_record [], [])"
      by (simp add: random_loop.simps)
    with True show ?thesis by (intro exI [of _ "[]"]) simp
  next
    case False
    let ?n = "randrange (rng k) 1 (length data + 1)"
    have n: "1 \<le> ?n" "?n \<le> length data"
      using False by (simp_all add: randrange_def Suc_le_eq)
    have len: "length (take ?n data) = ?n" using n by simp
    have rec: "mk_record ?n (take ?n data) = Inr (tls_record (take ?n data))"
      using mk_record_ok [of "take ?n data"] n "1.prems" unfolding len by simp
    have "length (drop ?n data) < 65536" using "1.prems" by simp
    from "1.IH" [OF False refl rec this]
    obtain ps where ps: "random_loop rng (Suc k) (drop ?n data) (parts @ [tls_record (take ?n data)])
        = Inr ((parts @ [tls_record (take ?n data)]) @ map tls_record ps, [])"
      and c: "concat ps = drop ?n data" and ne: "[] \<notin> set ps" by blast
    have "random_loop rng k data parts = Inr (parts @ map tls_record (take ?n data # ps), [])"
      using False rec ps by (subst random_loop.simps) (simp add: Let_def)
    moreover have "concat (take ?n data # ps) = data" using c by simp
    moreover have "[] \<notin> set (take ?n data # ps)" using ne n False by auto
    ultimately show ?thesis by blast
  qed
qed


lemma chunks_Nil_iff: "0 < n \<Longrightarrow> chunks n xs = [] \<longleftrightarrow> xs = []"
  by (cases xs) auto

lemma find_at_lt: "find_at [z] xs i = Some p \<Longrightarrow> p < i + length xs"
  by (induction xs arbitrary: i) (fastforce split: if_splits)+

lemma sni_scan_props:
  "sni_scan data p = Some (s, e) \<Longrightarrow>
   9 \<le> s \<and> s \<le> length data \<and> e = s + from_bytes (py_slice data (s - 2) s)"
proof (induction data p rule: sni_scan.induct)
  case (1 data)
  then show ?case by (simp add: sni_scan.simps)
next
  case (2 data pos)
  show ?case
  proof (cases "pos + 9 \<le> length data")
    case False
    with "2.prems" show ?thesis by (simp add: sni_scan.simps)
  next
    case True
    let ?ext = "int (from_bytes (py_slice data (pos + 2) (pos + 4)))"
    let ?lst = "int (from_bytes (py_slice data (pos + 4) (pos + 6)))"
    let ?nam = "int (from_bytes (py_slice data (pos + 7) (pos + 9)))"
    show ?thesis
    proof (cases "?ext - ?lst = 2 \<and> ?lst - ?nam = 3")
      case accept: True
      have "sni_scan data (Some pos)
          = Some (pos + 9, pos + 9 + nat (int (from_bytes (py_slice data (pos + 7) (pos + 9)))))"
        by (subst sni_scan.simps) (simp only: True accept if_True Let_def, simp)
      with "2.prems" have "Some (s, e)
          = Some (pos + 9, pos + 9 + from_bytes (py_slice data (pos + 7) (pos + 9)))"
        by (simp only: nat_int)
      then have s: "s = pos + 9"
        and e: "e = pos + 9 + from_bytes (py_slice data (pos + 7) (pos + 9))"
        by (simp_all only: option.inject prod.inject)
      have "9 \<le> pos + 9" "pos + 9 - 2 = pos + 7" by simp_all
      with True show ?thesis unfolding s e by (simp only:)
    next
      case reject: False
      have "sni_scan data (Some pos) = sni_scan data (bytes_find data [0, 0] (pos + 1))"
        by (subst sni_scan.simps) (simp only: True reject if_True if_False Let_def)
      with "2.prems"
      have "sni_scan data (bytes_find data [0, 0] (pos + 1)) = Some (s, e)"
        by (simp only:)
      with "2.IH" [OF True refl refl refl reject] show ?thesis by simp
    qed
  qed
qed

lemma extract_sni_position_props:
  "extract_sni_position data = Some (s, e) \<Longrightarrow>
   9 \<le> s \<and> s \<le> length data \<and> s \<le> e \<and> e - s = from_bytes (py_slice data (s - 2) s)"
  using sni_scan_props [of data "bytes_find data [0, 0] 0" s e]
  by (simp add: extract_sni_position_def)

lemma sni_parts_ok:
  assumes "length data < 65536"
  shows "sni_parts data (s, e) =
     Inr (map tls_record
            [take s data,
             take ((length (py_slice data s e) + 1) div 2) (py_slice data s e),
             drop ((length (py_slice data s e) + 1) div 2) (py_slice data s e),
             drop e data])"
proof -
  have "length (py_slice data s e) \<le> length data" by (simp add: py_slice_def)
  with assms have "\<forall>p \<in> set [take s data,
             take ((length (py_slice data s e) + 1) div 2) (py_slice data s e),
             drop ((length (py_slice data s e) + 1) div 2) (py_slice data s e),
             drop e data]. length p < 65536"
    by auto
  from mk_records_ok [OF this] show ?thesis by (simp add: sni_parts_def Let_def)
qed

lemma slice_concat: "s \<le> e \<Longrightarrow> take s data @ py_slice data s e @ drop e data = data"
proof -
  assume "s \<le> e"
  then have "drop e data = drop (e - s) (drop s data)" by simp
  then have "py_slice data s e @ drop e data = drop s data"
    unfolding py_slice_def by (simp only: append_take_drop_id)
  then show ?thesis by simp
qed

lemma build_parts_sni_found:
  assumes "extract_sni_position data = Some (s, e)" and "length data < 65536"
  shows "build_parts ''sni'' rng data =
     Inr (''sni'',
          map tls_record
            [take s data,
             take ((length (py_slice data s e) + 1) div 2) (py_slice data s e),
             drop ((length (py_slice data s e) + 1) div 2) (py_slice data s e),
             drop e data],
          data)"
  using assms sni_parts_ok [OF assms(2), of s e]
  by (simp add: build_parts_def sni_stage_def split_stage_def random_stage_def)

lemma build_parts_sni_fallback:
  assumes "extract_sni_position data = None"
  shows "build_parts ''sni'' rng data = Inr (''split'', map tls_record (chunks 32 data), data)"
  using assms split_loop_chunks [of 0 data "[]"]
  by (simp add: build_parts_def sni_stage_def split_stage_def random_stage_def)

lemma build_parts_split:
  assumes "method = ''split'' \<or> method = ''split-jitter''"
  shows "build_parts method rng data = Inr (method, map tls_record (chunks 32 data), data)"
  using assms split_loop_chunks [of 0 data "[]"]
  by (auto simp: build_parts_def sni_stage_def split_stage_def random_stage_def)

lemma build_parts_random:
  assumes "method \<noteq> ''sni''" "method \<noteq> ''split''" "method \<noteq> ''split-jitter''"
    and "length data < 65536"
  shows "\<exists>ps. build_parts method rng data = Inr (method, map tls_record ps, [])
            \<and> concat ps = data \<and> [] \<notin> set ps"
proof (cases "bytes_find data [0] 0")
  case None
  from random_loop_ok [OF assms(4), of rng 0 "[]"]
  obtain ps where ps: "random_loop rng 0 data [] = Inr (map tls_record ps, [])"
    and c: "concat ps = data" and ne: "[] \<notin> set ps" by auto
  have "build_parts method rng data = Inr (method, map tls_record ps, [])"
    using None assms(1-3) ps
    by (simp add: build_parts_def sni_stage_def split_stage_def random_stage_def)
  with c ne show ?thesis by blast
next
  case (Some h)
  then have h: "h < length data"
    using find_at_lt [of 0 data 0 h] by (simp add: bytes_find_def)
  let ?c = "take (h + 1) data"
  have len: "length ?c = h + 1" using h by simp
  have rec: "mk_record (h + 1) ?c = Inr (tls_record ?c)"
    using mk_record_ok [of ?c] assms(4) h unfolding len by simp
  have "length (drop (h + 1) data) < 65536" using assms(4) by simp
  from random_loop_ok [OF this, of rng 0 "[tls_record ?c]"]
  obtain ps where ps: "random_loop rng 0 (drop (h + 1) data) [tls_record ?c]
         = Inr ([tls_record ?c] @ map tls_record ps, [])"
    and c: "concat ps = drop (h + 1) data" and ne: "[] \<notin> set ps" by blast
  have "build_parts method rng data = Inr (method, map tls_record (?c # ps), [])"
    using Some assms(1-3) rec ps
    by (simp add: build_parts_def sni_stage_def split_stage_def random_stage_def)
  moreover have "concat (?c # ps) = data" using c by simp
  moreover have "[] \<notin> set (?c # ps)" using ne h by auto
  ultimately show ?thesis by blast
qed

lemma build_parts_payloads:
  assumes "length data < 65536"
  shows "\<exists>method' ps data'. build_parts method rng data = Inr (method', map tls_record ps, data')
            \<and> concat ps = data \<and> (data = [] \<longrightarrow> ps = [] \<and> data' = [])"
proof -
  consider (found) s e where "method = ''sni''" "extract_sni_position data = Some (s, e)"
    | (fallback) "method = ''sni''" "extract_sni_position data = None"
    | (split) "method = ''split'' \<or> method = ''split-jitter''"
    | (random) "method \<noteq> ''sni''" "method \<noteq> ''split''" "method \<noteq> ''split-jitter''"
    by (cases "extract_sni_position data") auto
  then show ?thesis
  proof cases
    case found
    from extract_sni_position_props [OF found(2)] have se: "s \<le> e" "9 \<le> s" "s \<le> length data"
      by simp_all
    let ?sni = "py_slice data s e"
    let ?ps = "[take s data, take ((length ?sni + 1) div 2) ?sni,
                drop ((length ?sni + 1) div 2) ?sni, drop e data]"
    have "build_parts method rng data = Inr (''sni'', map tls_record ?ps, data)"
      using build_parts_sni_found [OF found(2) assms] found(1) by simp
    moreover have "concat ?ps = data"
    proof -
      have "concat ?ps = take s data @ (take ((length ?sni + 1) div 2) ?sni
              @ drop ((length ?sni + 1) div 2) ?sni) @ drop e data"
        by simp
      also have "\<dots> = take s data @ ?sni @ drop e data"
        by (simp only: append_take_drop_id)
      also have "\<dots> = data" by (rule slice_concat [OF se(1)])
      finally show ?thesis .
    qed
    moreover have "data \<noteq> []" using se by auto
    ultimately show ?thesis by blast
  next
    case fallback
    have "build_parts method rng data = Inr (''split'', map tls_record (chunks 32 data), data)"
      using build_parts_sni_fallback [OF fallback(2)] fallback(1) by simp
    moreover have "concat (chunks 32 data) = data" by (simp add: concat_chunks)
    ultimately show ?thesis by (metis chunks.simps(1))
  next
    case split
    have "build_parts method rng data = Inr (method, map tls_record (chunks 32 data), data)"
      using build_parts_split [OF split] .
    moreover have "concat (chunks 32 data) = data" by (simp add: concat_chunks)
    ultimately show ?thesis by (metis chunks.simps(1))
  next
    case random
    from build_parts_random [OF random assms, of rng]
    obtain ps where "build_parts method rng data = Inr (method, map tls_record ps, [])"
      "concat ps = data" "[] \<notin> set ps" by blast
    moreover from this have "data = [] \<longrightarrow> ps = []" by (cases ps) auto
    ultimately show ?thesis by blast
  qed
qed

text \<open>
  Claim C1. For every fragmentation method (any method string: \<open>sni\<close>, \<open>split\<close>,
  \<open>split-jitter\<close>, and \<open>random\<close> or anything else, whatever the random draws) and every
  first TLS payload \<open>data\<close> of at most 2048 bytes, as \<open>reader.read(2048)\<close> returns it,
  the fragment list is built without an exception, every fragment has the shape
  \<open>16 03 04 LL LL payload\<close>, and the payloads (the fragments without their 5-byte
  headers) concatenate to \<open>data\<close>. When \<open>data\<close> is empty there are no fragments and
  the single write is \<open>head + data\<close>; otherwise the bytes written are the fragments.
\<close>

theorem fragments_preserve_payload:
  "length data \<le> 2048 \<longrightarrow>
     (\<exists>method' parts data'.
        build_parts method rng data = Inr (method', parts, data')
        \<and> (\<forall>part \<in> set parts. part = tls_record (drop 5 part))
        \<and> concat (map (drop 5) parts) = data
        \<and> (data = [] \<longrightarrow> parts = [] \<and> initial_writes head (method', parts, data') = [head @ data])
        \<and> (data \<noteq> [] \<longrightarrow>
              parts \<noteq> [] \<and> concat (initial_writes head (method', parts, data')) = concat parts))"
proof
  assume "length data \<le> 2048"
  then have "length data < 65536" by simp
  from build_parts_payloads [OF this, of "method" "rng"]
  obtain method' ps data' where
    b: "build_parts method rng data = Inr (method', map tls_record ps, data')"
    and c: "concat ps = data" and e: "data = [] \<longrightarrow> ps = [] \<and> data' = []"
    by blast
  have d: "map (drop 5) (map tls_record ps) = ps"
    by (simp add: drop5_tls_record comp_def)
  have 1: "\<forall>part \<in> set (map tls_record ps). part = tls_record (drop 5 part)"
    by (auto simp: drop5_tls_record)
  have 2: "concat (map (drop 5) (map tls_record ps)) = data"
    using c d by simp
  have 3: "data = [] \<longrightarrow> map tls_record ps = []
      \<and> initial_writes head (method', map tls_record ps, data') = [head @ data]"
    using e by (simp add: initial_writes_def)
  have 4: "data \<noteq> [] \<longrightarrow> map tls_record ps \<noteq> []
      \<and> concat (initial_writes head (method', map tls_record ps, data'))
          = concat (map tls_record ps)"
    using c by (auto simp: initial_writes_def)
  from b 1 2 3 4 show "\<exists>method' parts data'.
        build_parts method rng data = Inr (method', parts, data')
        \<and> (\<forall>part \<in> set parts. part = tls_record (drop 5 part))
        \<and> concat (map (drop 5) parts) = data
        \<and> (data = [] \<longrightarrow> parts = [] \<and> initial_writes head (method', parts, data') = [head @ data])
        \<and> (data \<noteq> [] \<longrightarrow>
              parts \<noteq> [] \<and> concat (initial_writes head (method', parts, data')) = concat parts)"
    by blast
qed

theorem fragments_preserve_payload_witness:
  "\<exists>method' parts data'.
      build_parts ''random'' (\<lambda>k. k) [1, 2, 0, 4, 5, 6] = Inr (method', parts, data')
      \<and> (\<forall>part \<in> set parts. part = tls_record (drop 5 part))
      \<and> concat (map (drop 5) parts) = [1, 2, 0, 4, 5, 6]"
  using fragments_preserve_payload [of "[1, 2, 0, 4, 5, 6]" "''random''" "\<lambda>k. k" "[22, 3, 1, 0, 6]"]
  by simp blast

text \<open>
  Claim C5, as amended. For the \<open>sni\<close> method, whenever an SNI position is located
  whose server-name length field is \<open>n > 0\<close> and whose \<open>n\<close> name bytes lie within
  \<open>data\<close>, the fragmenter emits exactly four records: the bytes before the name, the
  first \<open>ceil(n/2)\<close> bytes of the name, its remaining \<open>floor(n/2)\<close> bytes, and the bytes
  after the name, each behind a \<open>16 03 04 len\<close> header.
\<close>

theorem sni_four_records_amended:
  "extract_sni_position data = Some (s, e) \<and> s < e \<and> e \<le> length data \<and> length data \<le> 2048 \<longrightarrow>
     e - s = from_bytes (py_slice data (s - 2) s)
     \<and> build_parts ''sni'' rng data =
         Inr (''sni'',
              [tls_record (take s data),
               tls_record (py_slice data s (s + (e - s + 1) div 2)),
               tls_record (py_slice data (s + (e - s + 1) div 2) e),
               tls_record (drop e data)],
              data)
     \<and> length (py_slice data s (s + (e - s + 1) div 2)) = (e - s + 1) div 2
     \<and> length (py_slice data (s + (e - s + 1) div 2) e) = (e - s) div 2"
proof
  assume a: "extract_sni_position data = Some (s, e) \<and> s < e \<and> e \<le> length data \<and> length data \<le> 2048"
  then have ex: "extract_sni_position data = Some (s, e)" and se: "s < e" "e \<le> length data"
    and len: "length data < 65536" by simp_all
  let ?sni = "py_slice data s e"
  let ?mid = "(e - s + 1) div 2"
  have l: "length ?sni = e - s" using se by (simp add: py_slice_def)
  have m: "?mid \<le> e - s" using se by simp
  have t: "take ?mid ?sni = py_slice data s (s + ?mid)"
    using m by (simp add: py_slice_def min_def)
  have d: "drop ?mid ?sni = py_slice data (s + ?mid) e"
    by (simp add: py_slice_def drop_take add.commute)
  have bp0: "build_parts ''sni'' rng data =
     Inr (''sni'',
          map tls_record
            [take s data,
             take ((length ?sni + 1) div 2) ?sni,
             drop ((length ?sni + 1) div 2) ?sni,
             drop e data],
          data)"
    by (rule build_parts_sni_found [OF ex len])
  have bp: "build_parts ''sni'' rng data =
         Inr (''sni'',
              [tls_record (take s data),
               tls_record (py_slice data s (s + ?mid)),
               tls_record (py_slice data (s + ?mid) e),
               tls_record (drop e data)],
              data)"
    using bp0 unfolding l t d by simp
  have n: "e - s = from_bytes (py_slice data (s - 2) s)"
    using extract_sni_position_props [OF ex] by simp
  have l1: "length (py_slice data s (s + ?mid)) = ?mid"
    using se m by (simp add: py_slice_def)
  have l2: "length (py_slice data (s + ?mid) e) = (e - s) div 2"
    using se by (simp add: py_slice_def)
  from n bp l1 l2 show "e - s = from_bytes (py_slice data (s - 2) s)
     \<and> build_parts ''sni'' rng data =
         Inr (''sni'',
              [tls_record (take s data),
               tls_record (py_slice data s (s + (e - s + 1) div 2)),
               tls_record (py_slice data (s + (e - s + 1) div 2) e),
               tls_record (drop e data)],
              data)
     \<and> length (py_slice data s (s + (e - s + 1) div 2)) = (e - s + 1) div 2
     \<and> length (py_slice data (s + (e - s + 1) div 2) e) = (e - s) div 2"
    by blast
qed

lemma ex1: "extract_sni_position [7, 0, 0, 0, 8, 0, 6, 0, 0, 3, 97, 98, 99, 1, 2] = Some (10, 13)"
  by (simp add: extract_sni_position_def bytes_find_def sni_scan.simps py_slice_def from_bytes_def)

theorem sni_four_records_amended_witness:
  "build_parts ''sni'' (\<lambda>k. 0) [7, 0, 0, 0, 8, 0, 6, 0, 0, 3, 97, 98, 99, 1, 2] =
     Inr (''sni'',
          [tls_record [7, 0, 0, 0, 8, 0, 6, 0, 0, 3], tls_record [97, 98], tls_record [99],
           tls_record [1, 2]],
          [7, 0, 0, 0, 8, 0, 6, 0, 0, 3, 97, 98, 99, 1, 2])"
  using sni_four_records_amended [of "[7, 0, 0, 0, 8, 0, 6, 0, 0, 3, 97, 98, 99, 1, 2]" 10 13 "\<lambda>k. 0"]
  by (simp add: ex1 py_slice_def)

text \<open>
  Claim C5 as stated fails when the name runs past the end of \<open>data\<close>:
  \<open>_extract_sni_position\<close> checks only that the nine bytes of the extension header fit.
  Here the length field says 10 and three bytes follow; the middle records carry two
  bytes and one byte, not five and five.
\<close>

theorem sni_truncated_counterexample:
  "extract_sni_position [0, 0, 0, 15, 0, 13, 0, 0, 10, 97, 98, 99] = Some (9, 19)
   \<and> from_bytes (py_slice [0, 0, 0, 15, 0, 13, 0, 0, 10, 97, 98, 99] 7 9) = 10
   \<and> build_parts ''sni'' (\<lambda>k. 0) [0, 0, 0, 15, 0, 13, 0, 0, 10, 97, 98, 99] =
       Inr (''sni'',
            [tls_record [0, 0, 0, 15, 0, 13, 0, 0, 10], tls_record [97, 98], tls_record [99],
             tls_record []],
            [0, 0, 0, 15, 0, 13, 0, 0, 10, 97, 98, 99])"
  by (simp add: extract_sni_position_def bytes_find_def sni_scan.simps py_slice_def from_bytes_def
        build_parts_def sni_stage_def split_stage_def random_stage_def sni_parts_def
        mk_record_def to_bytes2_def hdr_def tls_record_def)

lemma find_at_Some:
  "find_at sub xs i = Some p \<Longrightarrow>
   i \<le> p \<and> p - i \<le> length xs \<and> prefix sub (drop (p - i) xs)
   \<and> (\<forall>q. i \<le> q \<and> q < p \<longrightarrow> \<not> prefix sub (drop (q - i) xs))"
proof (induction xs arbitrary: i)
  case Nil
  then show ?case by (simp split: if_splits)
next
  case (Cons x xs)
  show ?case
  proof (cases "prefix sub (x # xs)")
    case True
    with Cons.prems show ?thesis by simp
  next
    case False
    with Cons.prems have "find_at sub xs (Suc i) = Some p" by simp
    from Cons.IH [OF this]
    have a: "Suc i \<le> p" "p - Suc i \<le> length xs" "prefix sub (drop (p - Suc i) xs)"
      and b: "\<forall>q. Suc i \<le> q \<and> q < p \<longrightarrow> \<not> prefix sub (drop (q - Suc i) xs)"
      by simp_all
    have d: "drop (q - i) (x # xs) = drop (q - Suc i) xs" if "Suc i \<le> q" for q
      using that by (simp add: drop_Cons')
    have "\<not> prefix sub (drop (q - i) (x # xs))" if "i \<le> q" "q < p" for q
    proof (cases "q = i")
      case True
      with False show ?thesis by simp
    next
      case False
      with that have "Suc i \<le> q" by simp
      with b that d show ?thesis by simp
    qed
    with a d [of p] show ?thesis by auto
  qed
qed

lemma find_at_None:
  "find_at sub xs i = None \<Longrightarrow> k \<le> length xs \<Longrightarrow> \<not> prefix sub (drop k xs)"
proof (induction xs arbitrary: i k)
  case Nil
  then show ?case by (simp split: if_splits)
next
  case (Cons x xs)
  from Cons.prems(1) have np: "\<not> prefix sub (x # xs)" and r: "find_at sub xs (Suc i) = None"
    by (simp_all split: if_splits)
  show ?case
  proof (cases k)
    case 0
    with np show ?thesis by simp
  next
    case (Suc j)
    with Cons.prems(2) have "j \<le> length xs" by simp
    from Cons.IH [OF r this] Suc show ?thesis by simp
  qed
qed

lemma bytes_find_Some:
  assumes "bytes_find data sub start = Some p"
  shows "start \<le> p \<and> p \<le> length data \<and> prefix sub (drop p data)
         \<and> (\<forall>q. start \<le> q \<and> q < p \<longrightarrow> \<not> prefix sub (drop q data))"
proof -
  from assms have s: "start \<le> length data"
    and f: "find_at sub (drop start data) start = Some p"
    by (simp_all add: bytes_find_def split: if_splits)
  from find_at_Some [OF f]
  have a: "start \<le> p" "p - start \<le> length (drop start data)"
    "prefix sub (drop (p - start) (drop start data))"
    and b: "\<forall>q. start \<le> q \<and> q < p \<longrightarrow> \<not> prefix sub (drop (q - start) (drop start data))"
    by blast+
  have "p \<le> length data" using a(1,2) s by simp
  moreover have "prefix sub (drop p data)" using a(1,3) by simp
  moreover have "\<forall>q. start \<le> q \<and> q < p \<longrightarrow> \<not> prefix sub (drop q data)"
  proof (intro allI impI)
    fix q assume q: "start \<le> q \<and> q < p"
    with b have "\<not> prefix sub (drop (q - start) (drop start data))" by blast
    with q show "\<not> prefix sub (drop q data)" by simp
  qed
  ultimately show ?thesis using a(1) by blast
qed

lemma bytes_find_None:
  assumes "bytes_find data sub start = None" and "sub \<noteq> []" and "start \<le> q"
  shows "\<not> prefix sub (drop q data)"
proof (cases "q \<le> length data")
  case False
  with assms(2) show ?thesis by simp
next
  case True
  with assms(3) have s: "start \<le> length data" by simp
  with assms(1) have f: "find_at sub (drop start data) start = None"
    by (simp add: bytes_find_def)
  have "q - start \<le> length (drop start data)" using True by simp
  from find_at_None [OF f this] assms(3) show ?thesis by simp
qed

lemma pair_at:
  assumes "pos + 2 \<le> length data"
  shows "prefix [a, b] (drop pos data) \<longleftrightarrow> data ! pos = a \<and> data ! (pos + 1) = b"
proof -
  have "drop pos data = data ! pos # data ! (pos + 1) # drop (pos + 2) data"
    using assms by (simp add: Cons_nth_drop_Suc)
  then show ?thesis by auto
qed


lemma sni_scan_short: "\<not> pos + 9 \<le> length data \<Longrightarrow> sni_scan data (Some pos) = None"
  by (subst sni_scan.simps) simp

lemma sni_scan_accept:
  assumes "pos + 9 \<le> length data"
    and "int (from_bytes (py_slice data (pos + 2) (pos + 4)))
           - int (from_bytes (py_slice data (pos + 4) (pos + 6))) = 2
         \<and> int (from_bytes (py_slice data (pos + 4) (pos + 6)))
           - int (from_bytes (py_slice data (pos + 7) (pos + 9))) = 3"
  shows "sni_scan data (Some pos)
     = Some (pos + 9, pos + 9 + from_bytes (py_slice data (pos + 7) (pos + 9)))"
proof -
  have "sni_scan data (Some pos)
      = Some (pos + 9, pos + 9 + nat (int (from_bytes (py_slice data (pos + 7) (pos + 9)))))"
    by (subst sni_scan.simps) (simp only: assms if_True Let_def, simp)
  then show ?thesis by (simp only: nat_int)
qed

lemma sni_scan_reject:
  assumes "pos + 9 \<le> length data"
    and "\<not> (int (from_bytes (py_slice data (pos + 2) (pos + 4)))
           - int (from_bytes (py_slice data (pos + 4) (pos + 6))) = 2
         \<and> int (from_bytes (py_slice data (pos + 4) (pos + 6)))
           - int (from_bytes (py_slice data (pos + 7) (pos + 9))) = 3)"
  shows "sni_scan data (Some pos) = sni_scan data (bytes_find data [0, 0] (pos + 1))"
  by (subst sni_scan.simps) (simp only: assms if_True if_False Let_def)

lemma sni_candidate_pair: "sni_candidate data q \<Longrightarrow> prefix [0, 0] (drop q data)"
  using pair_at [of q data 0 0] by (simp add: sni_candidate_def)

lemma sni_scan_char:
  assumes "popt = bytes_find data [0, 0] start"
  shows "(sni_scan data popt = None \<longrightarrow> (\<forall>q \<ge> start. \<not> sni_candidate data q))
       \<and> (\<forall>s e. sni_scan data popt = Some (s, e) \<longrightarrow>
            (\<exists>pos \<ge> start. sni_candidate data pos
               \<and> (\<forall>q. start \<le> q \<and> q < pos \<longrightarrow> \<not> sni_candidate data q)
               \<and> s = pos + 9
               \<and> e = pos + 9 + from_bytes (py_slice data (pos + 7) (pos + 9))))"
  using assms
proof (induction data popt arbitrary: start rule: sni_scan.induct)
  case (1 data)
  then have "bytes_find data [0, 0] start = None" by simp
  then have "\<not> prefix [0, 0] (drop q data)" if "start \<le> q" for q
    using bytes_find_None that by blast
  then have "\<forall>q \<ge> start. \<not> sni_candidate data q"
    using sni_candidate_pair by blast
  then show ?case by (simp add: sni_scan.simps)
next
  case (2 data pos)
  from "2.prems" have "bytes_find data [0, 0] start = Some pos" by simp
  from bytes_find_Some [OF this]
  have sp: "start \<le> pos" and occ: "prefix [0, 0] (drop pos data)"
    and before: "\<forall>q. start \<le> q \<and> q < pos \<longrightarrow> \<not> prefix [0, 0] (drop q data)"
    by blast+
  have nb: "\<not> sni_candidate data q" if "start \<le> q" "q < pos" for q
    using before that sni_candidate_pair by blast
  let ?acc = "int (from_bytes (py_slice data (pos + 2) (pos + 4)))
           - int (from_bytes (py_slice data (pos + 4) (pos + 6))) = 2
         \<and> int (from_bytes (py_slice data (pos + 4) (pos + 6)))
           - int (from_bytes (py_slice data (pos + 7) (pos + 9))) = 3"
  show ?case
  proof (cases "pos + 9 \<le> length data")
    case False
    then have r: "sni_scan data (Some pos) = None" by (rule sni_scan_short)
    have "\<not> sni_candidate data q" if "start \<le> q" for q
    proof (cases "q < pos")
      case True
      with that show ?thesis by (rule nb)
    next
      case ge: False
      with False have "\<not> q + 9 \<le> length data" by simp
      then show ?thesis by (simp add: sni_candidate_def)
    qed
    with r show ?thesis by simp
  next
    case True
    show ?thesis
    proof (cases ?acc)
      case accept: True
      have r: "sni_scan data (Some pos)
          = Some (pos + 9, pos + 9 + from_bytes (py_slice data (pos + 7) (pos + 9)))"
        using True accept by (rule sni_scan_accept)
      have c: "sni_candidate data pos"
        using True accept occ pair_at [of pos data 0 0] by (simp add: sni_candidate_def)
      show ?thesis unfolding r using c sp nb by auto
    next
      case reject: False
      have r: "sni_scan data (Some pos) = sni_scan data (bytes_find data [0, 0] (pos + 1))"
        using True reject by (rule sni_scan_reject)
      have np: "\<not> sni_candidate data pos"
        using reject by (simp add: sni_candidate_def)
      have below: "\<not> sni_candidate data q" if "start \<le> q" "q < pos + 1" for q
        using that nb np by (cases "q = pos") auto
      note IH = "2.IH" [OF True refl refl refl reject, of "pos + 1", OF refl]
      have g1: "sni_scan data (bytes_find data [0, 0] (pos + 1)) = None
          \<longrightarrow> (\<forall>q \<ge> start. \<not> sni_candidate data q)"
      proof
        assume "sni_scan data (bytes_find data [0, 0] (pos + 1)) = None"
        with IH have "\<forall>q \<ge> pos + 1. \<not> sni_candidate data q" by blast
        with below show "\<forall>q \<ge> start. \<not> sni_candidate data q"
          by (metis not_le_imp_less)
      qed
      have g2: "\<forall>s e. sni_scan data (bytes_find data [0, 0] (pos + 1)) = Some (s, e) \<longrightarrow>
            (\<exists>pos \<ge> start. sni_candidate data pos
               \<and> (\<forall>q. start \<le> q \<and> q < pos \<longrightarrow> \<not> sni_candidate data q)
               \<and> s = pos + 9
               \<and> e = pos + 9 + from_bytes (py_slice data (pos + 7) (pos + 9)))"
      proof (intro allI impI)
        fix s e
        assume "sni_scan data (bytes_find data [0, 0] (pos + 1)) = Some (s, e)"
        with IH obtain p where p: "pos + 1 \<le> p" "sni_candidate data p"
          "\<forall>q. pos + 1 \<le> q \<and> q < p \<longrightarrow> \<not> sni_candidate data q"
          "s = p + 9" "e = p + 9 + from_bytes (py_slice data (p + 7) (p + 9))"
          by blast
        have "\<forall>q. start \<le> q \<and> q < p \<longrightarrow> \<not> sni_candidate data q"
          using p(3) below by (metis not_le_imp_less)
        moreover have "start \<le> p" using sp p(1) by simp
        ultimately show "\<exists>pos \<ge> start. sni_candidate data pos
               \<and> (\<forall>q. start \<le> q \<and> q < pos \<longrightarrow> \<not> sni_candidate data q)
               \<and> s = pos + 9
               \<and> e = pos + 9 + from_bytes (py_slice data (pos + 7) (pos + 9))"
          using p by blast
      qed
      show ?thesis unfolding r using g1 g2 by blast
    qed
  qed
qed

lemma extract_none_iff:
  "extract_sni_position data = None \<longleftrightarrow> (\<forall>pos. \<not> sni_candidate data pos)"
proof
  assume "extract_sni_position data = None"
  with sni_scan_char [OF refl, of data 0] show "\<forall>pos. \<not> sni_candidate data pos"
    by (simp add: extract_sni_position_def)
next
  assume n: "\<forall>pos. \<not> sni_candidate data pos"
  show "extract_sni_position data = None"
  proof (cases "extract_sni_position data")
    case None
    then show ?thesis .
  next
    case (Some se)
    obtain s e where "se = (s, e)" by (cases se)
    with Some sni_scan_char [OF refl, of data 0] n show ?thesis
      by (auto simp: extract_sni_position_def)
  qed
qed

lemma extract_least:
  assumes "sni_candidate data pos" and "\<forall>q < pos. \<not> sni_candidate data q"
  shows "extract_sni_position data
     = Some (pos + 9, pos + 9 + from_bytes (py_slice data (pos + 7) (pos + 9)))"
proof (cases "extract_sni_position data")
  case None
  with extract_none_iff assms(1) show ?thesis by blast
next
  case (Some se)
  obtain s e where se: "se = (s, e)" by (cases se)
  from Some se have "sni_scan data (bytes_find data [0, 0] 0) = Some (s, e)"
    by (simp add: extract_sni_position_def)
  with sni_scan_char [OF refl, of data 0]
  obtain p where p: "sni_candidate data p" "\<forall>q. q < p \<longrightarrow> \<not> sni_candidate data q"
    "s = p + 9" "e = p + 9 + from_bytes (py_slice data (p + 7) (p + 9))"
    by auto
  have "p = pos"
    using p(1,2) assms by (metis linorder_neqE_nat)
  with Some se p show ?thesis by simp
qed

text \<open>
  Claim C6, as amended. For the \<open>sni\<close> method, a candidate position whose server-name
  length field is 0 is accepted like any other. A position is accepted when the pair
  \<open>00 00\<close> stands there, the nine bytes of its fields lie within \<open>data\<close>, and
  \<open>ext_len - list_len = 2\<close> and \<open>list_len - name_len = 3\<close>; the first accepted position
  is the one used. When its name length is 0, four records are emitted, the two middle
  ones with an empty payload. The fragmenter falls back to \<open>split\<close> (payloads of 32
  bytes, the last one possibly shorter) when no position is accepted, and only then:
  whenever some position is accepted, four records are emitted.
\<close>

theorem sni_zero_length_amended:
  "(sni_candidate data pos \<and> (\<forall>q < pos. \<not> sni_candidate data q)
      \<and> from_bytes (py_slice data (pos + 7) (pos + 9)) = 0 \<and> length data \<le> 2048
    \<longrightarrow> extract_sni_position data = Some (pos + 9, pos + 9)
        \<and> build_parts ''sni'' rng data =
            Inr (''sni'',
                 [tls_record (take (pos + 9) data), tls_record [], tls_record [],
                  tls_record (drop (pos + 9) data)],
                 data))
   \<and> ((\<forall>pos. \<not> sni_candidate data pos)
    \<longrightarrow> extract_sni_position data = None
        \<and> build_parts ''sni'' rng data = Inr (''split'', map tls_record (chunks 32 data), data))
   \<and> ((\<exists>pos. sni_candidate data pos) \<and> length data \<le> 2048
    \<longrightarrow> (\<exists>parts. build_parts ''sni'' rng data = Inr (''sni'', parts, data) \<and> length parts = 4))"
proof (intro conjI impI)
  assume a: "sni_candidate data pos \<and> (\<forall>q < pos. \<not> sni_candidate data q)
      \<and> from_bytes (py_slice data (pos + 7) (pos + 9)) = 0 \<and> length data \<le> 2048"
  then have len: "length data < 65536" by simp
  have "extract_sni_position data
     = Some (pos + 9, pos + 9 + from_bytes (py_slice data (pos + 7) (pos + 9)))"
    using a by (intro extract_least) simp_all
  with a show ex: "extract_sni_position data = Some (pos + 9, pos + 9)" by simp
  have e: "py_slice data (pos + 9) (pos + 9) = []" by (simp add: py_slice_def)
  show "build_parts ''sni'' rng data =
            Inr (''sni'',
                 [tls_record (take (pos + 9) data), tls_record [], tls_record [],
                  tls_record (drop (pos + 9) data)],
                 data)"
    using build_parts_sni_found [OF ex len, of "rng"] unfolding e by simp
next
  assume "\<forall>pos. \<not> sni_candidate data pos"
  then show n: "extract_sni_position data = None" by (simp add: extract_none_iff)
  then show "build_parts ''sni'' rng data = Inr (''split'', map tls_record (chunks 32 data), data)"
    by (rule build_parts_sni_fallback)
next
  assume a: "(\<exists>pos. sni_candidate data pos) \<and> length data \<le> 2048"
  then have len: "length data < 65536" by simp
  from a have "extract_sni_position data \<noteq> None" by (simp add: extract_none_iff)
  then obtain s e where ex: "extract_sni_position data = Some (s, e)" by auto
  from build_parts_sni_found [OF ex len, of "rng"]
  show "\<exists>parts. build_parts ''sni'' rng data = Inr (''sni'', parts, data) \<and> length parts = 4"
    by simp
qed

theorem sni_zero_length_amended_witness:
  "build_parts ''sni'' (\<lambda>k. 0) [0, 0, 9, 9, 0, 0, 0, 5, 0, 3, 0, 0, 0, 7] =
      Inr (''sni'',
           [tls_record [0, 0, 9, 9, 0, 0, 0, 5, 0, 3, 0, 0, 0], tls_record [], tls_record [],
            tls_record [7]],
           [0, 0, 9, 9, 0, 0, 0, 5, 0, 3, 0, 0, 0, 7])
   \<and> build_parts ''sni'' (\<lambda>k. 0) [1, 2, 3] = Inr (''split'', [tls_record [1, 2, 3]], [1, 2, 3])
   \<and> (\<exists>parts. build_parts ''sni'' (\<lambda>k. 0) [0, 0, 9, 9, 0, 0, 0, 5, 0, 3, 0, 0, 0, 7]
                 = Inr (''sni'', parts, [0, 0, 9, 9, 0, 0, 0, 5, 0, 3, 0, 0, 0, 7])
               \<and> length parts = 4)"
proof -
  let ?d = "[0, 0, 9, 9, 0, 0, 0, 5, 0, 3, 0, 0, 0, 7] :: bytes"
  have h1: "sni_candidate ?d 4"
    by (simp add: sni_candidate_def py_slice_def from_bytes_def)
  have h2: "\<forall>q < 4. \<not> sni_candidate ?d q"
  proof (intro allI impI)
    fix q :: nat assume "q < 4"
    then consider "q = 0" | "q = 1" | "q = 2" | "q = 3" by linarith
    then show "\<not> sni_candidate ?d q"
      by cases (simp_all add: sni_candidate_def py_slice_def from_bytes_def)
  qed
  have h3: "from_bytes (py_slice ?d (4 + 7) (4 + 9)) = 0"
    by (simp add: py_slice_def from_bytes_def)
  have h4: "length ?d \<le> 2048" by simp
  have h5: "\<forall>pos. \<not> sni_candidate [1, 2, 3] pos"
    by (simp add: sni_candidate_def)
  have h6: "\<exists>pos. sni_candidate ?d pos" using h1 by blast
  have a: "build_parts ''sni'' (\<lambda>k. 0) ?d =
            Inr (''sni'',
                 [tls_record (take (4 + 9) ?d), tls_record [], tls_record [],
                  tls_record (drop (4 + 9) ?d)],
                 ?d)"
    using sni_zero_length_amended [of ?d 4 "\<lambda>k. 0"] h1 h2 h3 h4 by blast
  have b: "build_parts ''sni'' (\<lambda>k. 0) [1, 2, 3]
     = Inr (''split'', map tls_record (chunks 32 [1, 2, 3]), [1, 2, 3])"
    using sni_zero_length_amended [of "[1, 2, 3]" 0 "\<lambda>k. 0"] h5 by blast
  have c: "\<exists>parts. build_parts ''sni'' (\<lambda>k. 0) ?d = Inr (''sni'', parts, ?d) \<and> length parts = 4"
    using sni_zero_length_amended [of ?d 4 "\<lambda>k. 0"] h4 h6 by blast
  from a b c show ?thesis by simp
qed

text \<open>
  Claim C6 as stated fails: in the nine bytes \<open>00 00 00 05 00 03 00 00 00\<close> the only
  candidate position has name length 0, and the \<open>sni\<close> method emits four records, two
  of them empty, where \<open>split\<close> emits one record.
\<close>

theorem sni_zero_length_counterexample:
  "extract_sni_position [0, 0, 0, 5, 0, 3, 0, 0, 0] = Some (9, 9)
   \<and> from_bytes (py_slice [0, 0, 0, 5, 0, 3, 0, 0, 0] 7 9) = 0
   \<and> build_parts ''sni'' (\<lambda>k. 0) [0, 0, 0, 5, 0, 3, 0, 0, 0] =
       Inr (''sni'',
            [tls_record [0, 0, 0, 5, 0, 3, 0, 0, 0], tls_record [], tls_record [], tls_record []],
            [0, 0, 0, 5, 0, 3, 0, 0, 0])
   \<and> build_parts ''split'' (\<lambda>k. 0) [0, 0, 0, 5, 0, 3, 0, 0, 0] =
       Inr (''split'', [tls_record [0, 0, 0, 5, 0, 3, 0, 0, 0]], [0, 0, 0, 5, 0, 3, 0, 0, 0])"
  by (simp add: extract_sni_position_def bytes_find_def sni_scan.simps py_slice_def from_bytes_def
        build_parts_def sni_stage_def split_stage_def random_stage_def sni_parts_def
        mk_record_def to_bytes2_def hdr_def tls_record_def split_loop.simps)
section \<open>Properties of the connection handler\<close>

lemmas handler_defs =
  handle_connection_def handle_https_connection_def handle_http_connection_def
  handle_initial_tls_data_def handle_connection_error_def run_pipes_def pipe_def log_error_def
  add_info_traffic_def manager_is_blocked_def ConnectionHandler_init_def Statistics_init_def
  increment_total_connections_def increment_allowed_connections_def
  increment_blocked_connections_def increment_error_connections_def update_traffic_def
  established_def error_response_def encode_def dict_get_def decide_def choose_method_def
  initial_writes_def access_line_def str_int_def

lemma pipe_objects: "objects (pipe self relayed raised is_out) = objects self"
  by (simp add: pipe_def log_error_def Let_def)

lemma pipe_statistics:
  "\<not> (raised \<and> log_error_file self) \<Longrightarrow>
   statistics (pipe self relayed raised is_out) =
     (if is_out then update_traffic (statistics self) 0 (int (sum_list (map length relayed)))
      else update_traffic (statistics self) (int (sum_list (map length relayed))) 0)"
  by (auto simp: pipe_def log_error_def Let_def)

lemma build_parts_sample:
  "build_parts ''random'' (\<lambda>k. 0) [1, 0, 2]
     = Inr (''random'', [tls_record [1, 0], tls_record [2]], [])"
  by (simp add: build_parts_def sni_stage_def split_stage_def random_stage_def bytes_find_def
        mk_record_def to_bytes2_def hdr_def tls_record_def random_loop.simps randrange_def)

lemma write_all_none:
  "write_all self None k ws = (self\<lparr>to_origin := to_origin self @ ws\<rparr>, None)"
  by (induction ws arbitrary: self k) simp_all

lemma write_all_statistics: "statistics (fst (write_all self failure k ws)) = statistics self"
  by (induction ws arbitrary: self k) simp_all

lemma write_all_flag: "log_error_file (fst (write_all self failure k ws)) = log_error_file self"
  by (induction ws arbitrary: self k) simp_all

lemma write_all_keeps:
  "write_all self failure k ws = (self', e) \<Longrightarrow>
   statistics self' = statistics self \<and> log_error_file self' = log_error_file self"
  using write_all_statistics [of self failure k ws] write_all_flag [of self failure k ws]
  by simp

lemma unpaired_simps [simp]:
  "unpaired (update_traffic st a b) = unpaired st"
  "unpaired (increment_allowed_connections (increment_total_connections st)) = unpaired st"
  "unpaired (increment_blocked_connections (increment_total_connections st)) = unpaired st"
  "unpaired (increment_error_connections (increment_total_connections st)) = unpaired st"
  by (simp_all add: unpaired_def update_traffic_def increment_allowed_connections_def
       increment_total_connections_def increment_blocked_connections_def
       increment_error_connections_def)

lemma add_info_statistics [simp]: "statistics (add_info_traffic self r a b) = statistics self"
  by (simp add: add_info_traffic_def split: option.splits)

lemma add_info_flag [simp]: "log_error_file (add_info_traffic self r a b) = log_error_file self"
  by (simp add: add_info_traffic_def split: option.splits)

lemma add_info_to_origin [simp]: "to_origin (add_info_traffic self r a b) = to_origin self"
  by (simp add: add_info_traffic_def split: option.splits)

lemma log_error_flag [simp]: "log_error_file (log_error self d) = log_error_file self"
  by (simp add: log_error_def Let_def)

lemma log_error_statistics:
  "\<not> log_error_file self \<Longrightarrow> statistics (log_error self d) = statistics self"
  by (simp add: log_error_def Let_def)

text \<open>
  Without an error-log file, every function of the handler keeps the total equal to the
  sum of the three outcome counters: whenever it counts, it increments
  \<open>total_connections\<close> together with exactly one of them.
\<close>

lemma error_keeps:
  "log_error_file (handle_connection_error self env k) = log_error_file self
   \<and> (\<not> log_error_file self \<longrightarrow>
        unpaired (statistics (handle_connection_error self env k)) = unpaired (statistics self))"
  by (simp add: handle_connection_error_def log_error_statistics Let_def split: option.splits)

lemma pipe_keeps:
  "log_error_file (pipe self relayed raised is_out) = log_error_file self
   \<and> (\<not> log_error_file self \<longrightarrow>
        unpaired (statistics (pipe self relayed raised is_out)) = unpaired (statistics self))"
  by (simp add: pipe_def log_error_statistics Let_def)

lemma run_pipes_keeps:
  "log_error_file (run_pipes self env k) = log_error_file self
   \<and> (\<not> log_error_file self \<longrightarrow>
        unpaired (statistics (run_pipes self env k)) = unpaired (statistics self))"
proof -
  let ?s1 = "pipe self (client_chunks env) (client_relay_raises env) True"
  let ?s2 = "pipe ?s1 (origin_chunks env) (origin_relay_raises env) False"
  have "log_error_file ?s2 = log_error_file self
      \<and> (\<not> log_error_file self \<longrightarrow> unpaired (statistics ?s2) = unpaired (statistics self))"
    using pipe_keeps [of self "client_chunks env" "client_relay_raises env" True]
      pipe_keeps [of ?s1 "origin_chunks env" "origin_relay_raises env" False]
    by simp
  then show ?thesis
    by (simp add: run_pipes_def Let_def split: option.splits)
qed

lemma tls_keeps:
  assumes "handle_initial_tls_data self env host r = (self', e)"
  shows "log_error_file self' = log_error_file self
   \<and> (\<not> log_error_file self \<longrightarrow> unpaired (statistics self') = unpaired (statistics self))"
  using assms unfolding handle_initial_tls_data_def Let_def
  by (auto split: option.splits prod.splits sum.splits if_splits
        simp: log_error_statistics dest!: write_all_keeps)

lemma https_keeps:
  assumes "handle_https_connection self env host k r = (self', e)"
  shows "log_error_file self' = log_error_file self
   \<and> (\<not> log_error_file self \<longrightarrow> unpaired (statistics self') = unpaired (statistics self))"
proof -
  let ?s1 = "add_info_traffic
               (self\<lparr>statistics := update_traffic (statistics self) (int (length established)) 0\<rparr>)
               r (int (length established)) 0"
  have s1: "log_error_file ?s1 = log_error_file self"
    "unpaired (statistics ?s1) = unpaired (statistics self)"
    by simp_all
  show ?thesis
  proof (cases "connect_ok env")
    case False
    with assms have "self' = handle_connection_error ?s1 env (Some k)"
      by (simp add: handle_https_connection_def Let_def)
    with error_keeps [of ?s1 env "Some k"] s1 show ?thesis by simp
  next
    case True
    show ?thesis
    proof (cases "client_write_ok env")
      case False
      with True assms have "self' = ?s1"
        by (simp add: handle_https_connection_def Let_def)
      with s1 show ?thesis by simp
    next
      case ok: True
      let ?s2 = "?s1\<lparr>to_client := to_client ?s1 @ [established]\<rparr>"
      obtain s3 e3 where t: "handle_initial_tls_data ?s2 env host r = (s3, e3)"
        by (cases "handle_initial_tls_data ?s2 env host r")
      from tls_keeps [OF t] s1
      have s3: "log_error_file s3 = log_error_file self"
        "\<not> log_error_file self \<longrightarrow> unpaired (statistics s3) = unpaired (statistics self)"
        by simp_all
      show ?thesis
      proof (cases e3)
        case None
        with True ok t assms have "self' = run_pipes s3 env k"
          by (simp add: handle_https_connection_def Let_def)
        with run_pipes_keeps [of s3 env k] s3 show ?thesis by simp
      next
        case (Some exn)
        with True ok t assms have "self' = s3"
          by (simp add: handle_https_connection_def Let_def)
        with s3 show ?thesis by simp
      qed
    qed
  qed
qed

lemma http_keeps:
  assumes "handle_http_connection self env http_data k = (self', e)"
  shows "log_error_file self' = log_error_file self
   \<and> (\<not> log_error_file self \<longrightarrow> unpaired (statistics self') = unpaired (statistics self))"
proof (cases "connect_ok env")
  case False
  with assms have "self' = handle_connection_error self env (Some k)"
    by (simp add: handle_http_connection_def)
  with error_keeps [of self env "Some k"] show ?thesis by simp
next
  case True
  obtain s1 e1 where w: "write_all self (origin_write_failure env) 0 [http_data] = (s1, e1)"
    by (cases "write_all self (origin_write_failure env) 0 [http_data]")
  from write_all_keeps [OF w]
  have s1: "statistics s1 = statistics self" "log_error_file s1 = log_error_file self"
    by simp_all
  show ?thesis
  proof (cases e1)
    case (Some exn)
    with True w assms have "self' = s1"
      by (simp add: handle_http_connection_def)
    with s1 show ?thesis by simp
  next
    case None
    let ?s2 = "s1\<lparr>statistics :=
                 increment_allowed_connections (increment_total_connections (statistics s1))\<rparr>"
    from None True w assms have "self' = run_pipes ?s2 env k"
      by (simp add: handle_http_connection_def Let_def)
    with run_pipes_keeps [of ?s2 env k] s1 show ?thesis by simp
  qed
qed

lemma counters_stay_paired:
  assumes "\<not> log_error_file self"
  shows "unpaired (statistics (handle_connection self env new peer http_data parsed))
           = unpaired (statistics self)"
proof -
  obtain m h where p: "parsed = (m, h)" by (cases parsed)
  let ?s1 = "self\<lparr>objects := (objects self)(new \<mapsto>
                \<lparr>src_ip = fst peer, dst_domain = h, http_method = m,
                 start_time = now_stamp env, info_traffic_in = 0, info_traffic_out = 0\<rparr>)\<rparr>"
  let ?s2 = "case blacklist_manager ?s1 of
               AutoManager a \<Rightarrow>
                 if m = ''CONNECT''
                 then ?s1\<lparr>blacklist_manager :=
                        AutoManager (check_domain a h (probe_outcome env) (probe_can_append env))\<rparr>
                 else ?s1
             | _ \<Rightarrow> ?s1"
  let ?s3 = "?s2\<lparr>active_connections := (active_connections ?s2)(peer \<mapsto> new)\<rparr>"
  let ?s4 = "add_info_traffic
               (?s3\<lparr>statistics := update_traffic (statistics ?s3) 0 (int (length http_data))\<rparr>)
               new 0 (int (length http_data))"
  have s2: "log_error_file ?s2 = log_error_file self" "statistics ?s2 = statistics self"
    by (simp_all split: blacklist_manager.splits)
  have s4: "\<not> log_error_file ?s4" "unpaired (statistics ?s4) = unpaired (statistics self)"
    using assms s2 by simp_all
  obtain s5 raised where d:
    "(if m = ''CONNECT'' then handle_https_connection ?s4 env h peer new
      else handle_http_connection ?s4 env http_data peer) = (s5, raised)"
    by (cases "if m = ''CONNECT'' then handle_https_connection ?s4 env h peer new
               else handle_http_connection ?s4 env http_data peer")
  have s5: "\<not> log_error_file s5" "unpaired (statistics s5) = unpaired (statistics self)"
    using d s4 https_keeps [of ?s4 env h peer new s5 raised]
      http_keeps [of ?s4 env http_data peer s5 raised]
    by (auto split: if_splits)
  have r: "handle_connection self env new peer http_data parsed
      = (case raised of None \<Rightarrow> s5 | Some exn \<Rightarrow> handle_connection_error s5 env (Some peer))"
    unfolding handle_connection_def p Let_def using d by (simp only: prod.case)
  show ?thesis
    unfolding r using s5 error_keeps [of s5 env "Some peer"]
    by (simp split: option.splits)
qed

text \<open>
  For a connection decided as blocked whose writes succeed, the origin receives what
  \<open>initial_writes\<close> lists for the fragments built.
\<close>

lemma blocked_connection_writes:
  assumes "tls_read env = Some (head, data)"
    and "objects self r = Some ci"
    and "decide (rule_engine self) (dst_domain ci) = (rule_decision, rule_method)"
    and "rule_decision = Some True
         \<or> rule_decision = None \<and> manager_is_blocked (blacklist_manager self) (dst_domain ci)"
    and "origin_write_failure env = None"
    and "build_parts
           (choose_method rule_method (fragment_method self)
              (dict_get (domain_failures self) (dst_domain ci) 0))
           (draws env) data = Inr built"
  shows "to_origin (fst (handle_initial_tls_data self env host r))
           = to_origin self @ initial_writes head built"
  using assms
  by (auto simp: handle_initial_tls_data_def Let_def write_all_none)

text \<open>
  Claim C2 says that a connection that reaches the decision point increments
  \<open>total_connections\<close> exactly once and exactly one of the three outcome counters,
  whatever happens afterwards. The code does not do that on two paths of a \<open>CONNECT\<close>.
  When the write of the first TLS payload to the origin raises,
  \<open>_handle_initial_tls_data\<close> has already counted the connection as blocked and the
  handler of the exception counts it again as an error: total 2, blocked 1, errors 1.
  When the bounded read of the first TLS payload raises, the function returns before
  any counter and the relay runs: the connection ends with total 0.
\<close>

theorem tls_write_failure_counts_twice:
  "statistics
     (handle_connection (ConnectionHandler_init ''random'' NoManager [])
        \<lparr>now_stamp = ''2026-01-01 00:00:00'', probe_outcome = ProbeSuccess,
         probe_can_append = True, connect_ok = True, client_write_ok = True,
         tls_read = Some ([22, 3, 1, 0, 3], [1, 0, 2]), origin_write_failure = Some 0,
         draws = (\<lambda>k. 0), client_chunks = [], origin_chunks = [],
         client_relay_raises = False, origin_relay_raises = False, error_write_ok = True\<rparr>
        0 (''10.0.0.1'', 50000)
        (encode (''CONNECT blocked.test:443 HTTP/1.1'' @ [CHR 0x0D, CHR 0x0A, CHR 0x0D, CHR 0x0A]))
        (''CONNECT'', ''blocked.test''))
     = \<lparr>total_connections = 2, allowed_connections = 0, blocked_connections = 1,
        errors_connections = 1, traffic_in = 77, traffic_out = 37\<rparr>
   \<and> statistics
     (handle_connection (ConnectionHandler_init ''random'' NoManager [])
        \<lparr>now_stamp = ''2026-01-01 00:00:00'', probe_outcome = ProbeSuccess,
         probe_can_append = True, connect_ok = True, client_write_ok = True,
         tls_read = None, origin_write_failure = None,
         draws = (\<lambda>k. 0), client_chunks = [], origin_chunks = [],
         client_relay_raises = False, origin_relay_raises = False, error_write_ok = True\<rparr>
        0 (''10.0.0.1'', 50000)
        (encode (''CONNECT blocked.test:443 HTTP/1.1'' @ [CHR 0x0D, CHR 0x0A, CHR 0x0D, CHR 0x0A]))
        (''CONNECT'', ''blocked.test''))
     = \<lparr>total_connections = 0, allowed_connections = 0, blocked_connections = 0,
        errors_connections = 0, traffic_in = 39, traffic_out = 37\<rparr>"
  by (simp add: handler_defs build_parts_sample Let_def)

text \<open>
  On the plain HTTP path the first chunk is written before the counters are touched, so
  a failing write is counted once, as an error.
\<close>

lemma http_write_failure_counts_once:
  "statistics
     (handle_connection (ConnectionHandler_init ''random'' NoManager [])
        \<lparr>now_stamp = ''2026-01-01 00:00:00'', probe_outcome = ProbeSuccess,
         probe_can_append = True, connect_ok = True, client_write_ok = True,
         tls_read = None, origin_write_failure = Some 0,
         draws = (\<lambda>k. 0), client_chunks = [], origin_chunks = [],
         client_relay_raises = False, origin_relay_raises = False, error_write_ok = True\<rparr>
        0 (''10.0.0.1'', 50000)
        (encode (''GET / HTTP/1.1'' @ [CHR 0x0D, CHR 0x0A] @ ''Host: text.example'' @ [CHR 0x0D, CHR 0x0A, CHR 0x0D, CHR 0x0A]))
        (''GET'', ''text.example''))
     = \<lparr>total_connections = 1, allowed_connections = 0, blocked_connections = 0,
        errors_connections = 1, traffic_in = 38, traffic_out = 38\<rparr>"
  by (simp add: handler_defs Let_def)

text \<open>
  With an error-log file configured, the logger's callback adds one more error for the
  message that \<open>_handle_connection_error\<close> logs: the failing fragment write then gives
  total 2, blocked 1, errors 2.
\<close>

lemma tls_write_failure_with_error_log:
  "statistics
     (handle_connection ((ConnectionHandler_init ''random'' NoManager [])\<lparr>log_error_file := True\<rparr>)
        \<lparr>now_stamp = ''2026-01-01 00:00:00'', probe_outcome = ProbeSuccess,
         probe_can_append = True, connect_ok = True, client_write_ok = True,
         tls_read = Some ([22, 3, 1, 0, 3], [1, 0, 2]), origin_write_failure = Some 0,
         draws = (\<lambda>k. 0), client_chunks = [], origin_chunks = [],
         client_relay_raises = False, origin_relay_raises = False, error_write_ok = True\<rparr>
        0 (''10.0.0.1'', 50000)
        (encode (''CONNECT blocked.test:443 HTTP/1.1'' @ [CHR 0x0D, CHR 0x0A, CHR 0x0D, CHR 0x0A]))
        (''CONNECT'', ''blocked.test''))
     = \<lparr>total_connections = 2, allowed_connections = 0, blocked_connections = 1,
        errors_connections = 2, traffic_in = 77, traffic_out = 37\<rparr>"
  by (simp add: handler_defs build_parts_sample Let_def)

text \<open>
  Claim C3 says that every byte moved is attributed once to the \<open>ConnectionInfo\<close> of its
  connection as well as to the global counters, the bytes of the two relays included.
  The code does not do that: \<open>_pipe\<close> adds its volume to the \<open>ConnectionInfo\<close> only
  \<open>if conn_info\<close>, and its \<open>conn_info\<close> is always \<open>None\<close>. For a plain \<open>GET\<close> of 38
  bytes followed by two more bytes from the client and five from the origin, the
  global counters hold 5 in and 40 out, and the access record reports 0 in and 38 out.
\<close>

theorem relay_bytes_missing_from_connection_info:
  "traffic_in (statistics
     (handle_connection (ConnectionHandler_init ''random'' NoManager [])
        \<lparr>now_stamp = ''2026-01-01 00:00:00'', probe_outcome = ProbeSuccess,
         probe_can_append = True, connect_ok = True, client_write_ok = True,
         tls_read = None, origin_write_failure = None,
         draws = (\<lambda>k. 0), client_chunks = [[7, 7]], origin_chunks = [[1, 2, 3, 4, 5]],
         client_relay_raises = False, origin_relay_raises = False, error_write_ok = True\<rparr>
        0 (''10.0.0.1'', 50000)
        (encode (''GET / HTTP/1.1'' @ [CHR 0x0D, CHR 0x0A] @ ''Host: text.example'' @ [CHR 0x0D, CHR 0x0A, CHR 0x0D, CHR 0x0A]))
        (''GET'', ''text.example''))) = 5
   \<and> traffic_out (statistics
     (handle_connection (ConnectionHandler_init ''random'' NoManager [])
        \<lparr>now_stamp = ''2026-01-01 00:00:00'', probe_outcome = ProbeSuccess,
         probe_can_append = True, connect_ok = True, client_write_ok = True,
         tls_read = None, origin_write_failure = None,
         draws = (\<lambda>k. 0), client_chunks = [[7, 7]], origin_chunks = [[1, 2, 3, 4, 5]],
         client_relay_raises = False, origin_relay_raises = False, error_write_ok = True\<rparr>
        0 (''10.0.0.1'', 50000)
        (encode (''GET / HTTP/1.1'' @ [CHR 0x0D, CHR 0x0A] @ ''Host: text.example'' @ [CHR 0x0D, CHR 0x0A, CHR 0x0D, CHR 0x0A]))
        (''GET'', ''text.example''))) = 40
   \<and> access_log
     (handle_connection (ConnectionHandler_init ''random'' NoManager [])
        \<lparr>now_stamp = ''2026-01-01 00:00:00'', probe_outcome = ProbeSuccess,
         probe_can_append = True, connect_ok = True, client_write_ok = True,
         tls_read = None, origin_write_failure = None,
         draws = (\<lambda>k. 0), client_chunks = [[7, 7]], origin_chunks = [[1, 2, 3, 4, 5]],
         client_relay_raises = False, origin_relay_raises = False, error_write_ok = True\<rparr>
        0 (''10.0.0.1'', 50000)
        (encode (''GET / HTTP/1.1'' @ [CHR 0x0D, CHR 0x0A] @ ''Host: text.example'' @ [CHR 0x0D, CHR 0x0A, CHR 0x0D, CHR 0x0A]))
        (''GET'', ''text.example''))
     = [''2026-01-01 00:00:00 10.0.0.1 GET text.example 0 38'']"
  by (simp add: handler_defs Let_def digits.simps)

end
